theory Spec2Isabelle
  imports Main "HOL-Library.Multiset" "HOL-Library.Sublist"
begin

section \<open>The source IR (the parts of go/ssa that cl/compile.go reads)\<close>

type_synonym token_Pos = int
type_synonym token_Token = string
type_synonym types_Type = string
type_synonym constant_Value = string

record types_Var =
  var_name :: string
  var_type :: types_Type

record types_Signature =
  sig_recv :: "types_Var option"
  sig_params :: "types_Var list"

text \<open>
  The fields of a \<^verbatim>\<open>*ssa.Function\<close> other than its blocks. \<open>fn_pkgPath\<close> is
  \<^verbatim>\<open>fn.Pkg.Pkg.Path()\<close> (the functions whose package the source reads, package
  members and functions named \<open>init\<close>, all have one); \<open>fn_Params\<close> holds the identities (addresses) of the
  function's \<^verbatim>\<open>*ssa.Parameter\<close> objects; \<open>fn_typeparams\<close> is \<open>None\<close> where
  \<^verbatim>\<open>TypeParams()\<close> is nil.
\<close>

record FunctionInfo =
  fn_name :: string
  fn_pkgPath :: string
  fn_Signature :: types_Signature
  fn_Params :: "nat list"
  fn_typeparams :: "string list option"
  fn_pos :: token_Pos

record GlobalInfo =
  g_name :: string
  g_pkgPath :: string
  g_type :: types_Type
  g_pos :: token_Pos

text \<open>
  Values and the instructions that are values too (the interface \<^verbatim>\<open>instrAndValue\<close>).
  Every instruction carries its address as first argument: the block-value map of the
  source is keyed by pointer identity, and two instructions with equal operands are
  still two keys. \<open>Parameter a ps\<close> is the parameter at address \<open>a\<close> whose
  \<^verbatim>\<open>Parent().Params\<close> are at the addresses \<open>ps\<close>. \<open>OtherValue k\<close> and
  \<open>OtherIV a k\<close> stand for every kind the type switches do not list; \<open>k\<close> is what
  \<^verbatim>\<open>%T\<close> prints.
\<close>

datatype ssa_Value =
    Parameter nat "nat list"
  | Function FunctionInfo
  | Global GlobalInfo
  | Const "constant_Value option" types_Type
  | OtherValue string
  | InstrVal instrAndValue
and instrAndValue =
    Call nat ssa_Value "ssa_Value list"
  | BinOp nat token_Token ssa_Value ssa_Value
  | UnOp nat token_Token ssa_Value
  | IndexAddr nat ssa_Value ssa_Value
  | Alloc nat types_Type bool
  | OtherIV nat string

text \<open>
  Instructions. \<open>Jump\<close> and \<open>IfInstr\<close> carry \<^verbatim>\<open>v.Block().Succs\<close> as the list of
  the successors' \<^verbatim>\<open>Index\<close> fields.
\<close>

datatype ssa_Instruction =
    IV instrAndValue
  | Store ssa_Value ssa_Value
  | Jump "nat list"
  | Return "ssa_Value list"
  | IfInstr ssa_Value "nat list"
  | OtherInstr string

record BasicBlock =
  Index :: nat
  Instrs :: "ssa_Instruction list"

record ssa_Function =
  info :: FunctionInfo
  Blocks :: "BasicBlock list"

datatype Member =
    MFunction ssa_Function
  | MType string token_Pos
  | MGlobal GlobalInfo
  | MNamedConst string token_Pos

fun member_Pos :: "Member \<Rightarrow> token_Pos" where
  "member_Pos (MFunction f) = fn_pos (info f)"
| "member_Pos (MType n p) = p"
| "member_Pos (MGlobal g) = g_pos g"
| "member_Pos (MNamedConst n p) = p"

text \<open>
  \<open>Members\<close> is the member map in the order one \<^verbatim>\<open>range\<close> over it happens to
  yield its entries.
\<close>

record ssa_Package =
  pkg_name :: string
  pkg_path :: string
  Members :: "(string \<times> Member) list"

section \<open>The target IR\<close>

type_synonym llssa_Type = string

text \<open>
  Modelled from the spec: package llssa (the target-IR builder) is not part of
  cl/compile.go. Its handles are opaque to the translator: a function or global handle
  is its position in the package's declaration order, a block handle is a function
  handle and a block index, and the expression an emitted operation returns names the
  place of that operation. Each instruction-construction call (call, binary op, unary
  op, address computation, allocation, store, jump, conditional branch, return) appends
  one operation to the block the builder is set to.
\<close>

datatype Expr =
    ExprZero
  | FnExpr nat
  | GlobalExpr nat
  | ParamExpr nat nat
  | ConstExpr "constant_Value option" llssa_Type
  | NullExpr llssa_Type
  | InstrExpr nat nat nat

datatype Op =
    Op_Call Expr "Expr list"
  | Op_BinOp token_Token Expr Expr
  | Op_UnOp token_Token Expr
  | Op_IndexAddr Expr Expr
  | Op_Alloc llssa_Type bool
  | Op_Store Expr Expr
  | Op_Jump nat
  | Op_Return "Expr list"
  | Op_If Expr nat nat

record llFunction =
  f_name :: string
  f_sig :: types_Signature
  f_blks :: "Op list list"

record llGlobal =
  v_name :: string
  v_type :: llssa_Type
  v_init :: "Expr option"

record Package =
  p_name :: string
  p_path :: string
  p_fns :: "llFunction list"
  p_fnIdx :: "string \<rightharpoonup> nat"
  p_vars :: "llGlobal list"
  p_varIdx :: "string \<rightharpoonup> nat"

section \<open>What cl/compile.go uses and does not define\<close>

text \<open>
  The constant \<^verbatim>\<open>llssa.NameValist\<close>, the naming functions \<^verbatim>\<open>funcName\<close> and
  \<^verbatim>\<open>fullName\<close> (first argument: the path of the package) and the type mapping
  \<^verbatim>\<open>prog.Type\<close> are defined outside cl/compile.go; they are parameters here.
\<close>

record externals =
  NameValist :: string
  funcName :: "string \<Rightarrow> FunctionInfo \<Rightarrow> string"
  fullName :: "string \<Rightarrow> string \<Rightarrow> string"
  progType :: "types_Type \<Rightarrow> llssa_Type"

section \<open>Panics\<close>

datatype panic =
    Todo
  | UnknownInstrAndValue string
  | UnknownInstr string
  | UnknownValue string
  | IndexOutOfRange
  | MakeSliceLenOutOfRange
  | NilDereference
  | NotDeclared string

section \<open>The function classifier\<close>

definition fnNormal :: int where "fnNormal = 0"
definition fnHasVArg :: int where "fnHasVArg = 1"
definition fnUnsafeInit :: int where "fnUnsafeInit = 2"

definition funcKind :: "externals \<Rightarrow> ssa_Value \<Rightarrow> int" where
  "funcKind ext vfn =
     (case vfn of
        Function f \<Rightarrow>
          if sig_recv (fn_Signature f) = None then
            (let params = sig_params (fn_Signature f); n = length params in
             if n = 0 then
               (if fn_name f = ''init'' \<and> fn_pkgPath f = ''unsafe'' then fnUnsafeInit
                else fnNormal)
             else
               (let lastp = params ! (n - 1) in
                if var_name lastp = NameValist ext then fnHasVArg else fnNormal))
          else fnNormal
      | _ \<Rightarrow> fnNormal)"

section \<open>The compilation context\<close>

text \<open>
  A closure appended to \<^verbatim>\<open>p.inits\<close> by \<^verbatim>\<open>compileFunc\<close>, as the variables it
  captures: \<^verbatim>\<open>name\<close>, \<^verbatim>\<open>fn\<close> and \<^verbatim>\<open>f\<close>.
\<close>

record initClosure =
  c_name :: string
  c_fn :: nat
  c_f :: ssa_Function

text \<open>
  The fields of \<^verbatim>\<open>context\<close> that cl/compile.go reads or writes, with the package
  under construction held by value and the builder's insertion block \<open>b_blk\<close> (the
  state of the \<^verbatim>\<open>llssa.Builder\<close> passed around as \<^verbatim>\<open>b\<close>).
\<close>

record "context" =
  pkg :: Package
  fn :: "nat option"
  bvals :: "instrAndValue \<rightharpoonup> Expr"
  inits :: "initClosure list"
  b_blk :: "(nat \<times> nat) option"

section \<open>The builder and the registries\<close>

text \<open>
  Modelled from the spec: the instruction-construction calls of the builder. \<open>emit\<close>
  appends one operation to the block the builder is set to and returns the expression
  that names it.
\<close>

definition emit :: "Op \<Rightarrow> context \<Rightarrow> panic + (Expr \<times> context)" where
  "emit ope s =
     (case b_blk s of
        None \<Rightarrow> Inl NilDereference
      | Some (h, i) \<Rightarrow>
          (let fs = p_fns (pkg s) in
           if h < length fs \<and> i < length (f_blks (fs ! h)) then
             (let f = fs ! h; ops = f_blks f ! i in
              Inr (InstrExpr h i (length ops),
                   s\<lparr>pkg := (pkg s)\<lparr>p_fns :=
                        fs[h := f\<lparr>f_blks := (f_blks f)[i := ops @ [ope]]\<rparr>]\<rparr>\<rparr>))
           else Inl IndexOutOfRange))"

text \<open>
  Modelled from the spec: \<^verbatim>\<open>p.fn.Block(idx)\<close> selects the block of the current
  function by its positional index, and \<^verbatim>\<open>p.fn.Param(idx)\<close> its parameter.
\<close>

definition fnBlock :: "nat \<Rightarrow> context \<Rightarrow> panic + (nat \<times> nat)" where
  "fnBlock idx s =
     (case fn s of
        None \<Rightarrow> Inl NilDereference
      | Some h \<Rightarrow>
          if h < length (p_fns (pkg s)) \<and> idx < length (f_blks (p_fns (pkg s) ! h))
          then Inr (h, idx) else Inl IndexOutOfRange)"

definition fnParam :: "nat \<Rightarrow> context \<Rightarrow> panic + Expr" where
  "fnParam idx s =
     (case fn s of None \<Rightarrow> Inl NilDereference | Some h \<Rightarrow> Inr (ParamExpr h idx))"

text \<open>
  Modelled from the spec: \<^verbatim>\<open>pkg.NewFunc\<close> and \<^verbatim>\<open>pkg.NewVar\<close> declare a function
  or a global (a name and a handle) and enter it in the registry of its kind;
  \<^verbatim>\<open>MakeBlocks\<close> allocates the blocks of a function, all empty.
\<close>

definition NewFunc :: "string \<Rightarrow> types_Signature \<Rightarrow> Package \<Rightarrow> nat \<times> Package" where
  "NewFunc name sg p =
     (length (p_fns p),
      p\<lparr>p_fns := p_fns p @ [\<lparr>f_name = name, f_sig = sg, f_blks = []\<rparr>],
        p_fnIdx := (p_fnIdx p)(name \<mapsto> length (p_fns p))\<rparr>)"

definition NewVar :: "string \<Rightarrow> llssa_Type \<Rightarrow> Package \<Rightarrow> nat \<times> Package" where
  "NewVar name t p =
     (length (p_vars p),
      p\<lparr>p_vars := p_vars p @ [\<lparr>v_name = name, v_type = t, v_init = None\<rparr>],
        p_varIdx := (p_varIdx p)(name \<mapsto> length (p_vars p))\<rparr>)"

definition InitVar :: "nat \<Rightarrow> Expr \<Rightarrow> Package \<Rightarrow> Package" where
  "InitVar g e p = p\<lparr>p_vars := (p_vars p)[g := (p_vars p ! g)\<lparr>v_init := Some e\<rparr>]\<rparr>"

definition MakeBlocks :: "nat \<Rightarrow> nat \<Rightarrow> Package \<Rightarrow> Package" where
  "MakeBlocks h nblk p =
     p\<lparr>p_fns := (p_fns p)[h := (p_fns p ! h)\<lparr>f_blks :=
          f_blks (p_fns p ! h) @ replicate nblk []\<rparr>]\<rparr>"

text \<open>
  Modelled from the spec: \<^verbatim>\<open>funcOf\<close> and \<^verbatim>\<open>varOf\<close> are defined outside
  cl/compile.go. A reference to a declared function or global resolves through the
  registries and fails if the name is not declared. (The import of another package's
  declarations, which the spec's \<open>loadedPackages\<close> stands for, is not part of this
  model: only names declared in this package resolve.)
\<close>

definition funcOf :: "externals \<Rightarrow> FunctionInfo \<Rightarrow> context \<Rightarrow> panic + nat" where
  "funcOf ext f s =
     (case p_fnIdx (pkg s) (funcName ext (fn_pkgPath f) f) of
        None \<Rightarrow> Inl (NotDeclared (funcName ext (fn_pkgPath f) f))
      | Some h \<Rightarrow> Inr h)"

definition varOf :: "externals \<Rightarrow> GlobalInfo \<Rightarrow> context \<Rightarrow> panic + nat" where
  "varOf ext g s =
     (case p_varIdx (pkg s) (fullName ext (g_pkgPath g) (g_name g)) of
        None \<Rightarrow> Inl (NotDeclared (fullName ext (g_pkgPath g) (g_name g)))
      | Some h \<Rightarrow> Inr h)"

section \<open>Lowering values and instructions\<close>

text \<open>
  The loop of \<^verbatim>\<open>compileValue\<close> over \<^verbatim>\<open>fn.Params\<close>: the first index whose
  parameter is \<open>v\<close>.
\<close>

fun paramIndex :: "nat \<Rightarrow> nat list \<Rightarrow> nat \<Rightarrow> nat option" where
  "paramIndex v [] idx = None"
| "paramIndex v (param # ps) idx = (if param = v then Some idx else paramIndex v ps (Suc idx))"

definition compileVArg :: "Expr list \<Rightarrow> ssa_Value \<Rightarrow> panic + Expr list" where
  "compileVArg ret v =
     (case v of
        Const val t \<Rightarrow> if val = None then Inr ret else Inl Todo
      | _ \<Rightarrow> Inl Todo)"

text \<open>\<^verbatim>\<open>p.bvals[iv] = ret; return ret\<close>, the end of \<^verbatim>\<open>compileInstrAndValue\<close>.\<close>

definition cacheRet :: "instrAndValue \<Rightarrow> panic + (Expr \<times> context) \<Rightarrow> panic + (Expr \<times> context)" where
  "cacheRet iv r =
     (case r of
        Inl e \<Rightarrow> Inl e
      | Inr (ret, s) \<Rightarrow> Inr (ret, s\<lparr>bvals := (bvals s)(iv \<mapsto> ret)\<rparr>))"

text \<open>
  \<open>compileValuesLoop ext vs k s\<close> is the loop
  \<^verbatim>\<open>for i := 0; i < n; i++ { ret[i] = p.compileValue(b, vals[i]) }\<close> with \<open>k\<close>
  iterations left and \<open>vs\<close> the arguments from \<open>i\<close> on; reading past the end of
  \<^verbatim>\<open>vals\<close> panics.
\<close>

fun compileInstrAndValue :: "externals \<Rightarrow> instrAndValue \<Rightarrow> context \<Rightarrow> panic + (Expr \<times> context)"
and compileValue :: "externals \<Rightarrow> ssa_Value \<Rightarrow> context \<Rightarrow> panic + (Expr \<times> context)"
and compileValues :: "externals \<Rightarrow> ssa_Value list \<Rightarrow> int \<Rightarrow> context \<Rightarrow> panic + (Expr list \<times> context)"
and compileValuesLoop :: "externals \<Rightarrow> ssa_Value list \<Rightarrow> nat \<Rightarrow> context \<Rightarrow> panic + (Expr list \<times> context)"
where
  "compileInstrAndValue ext iv s =
     (case bvals s iv of
        Some v \<Rightarrow> Inr (v, s)
      | None \<Rightarrow>
         (case iv of
            Call a callee args \<Rightarrow>
              if funcKind ext callee = fnUnsafeInit then Inr (ExprZero, s)
              else cacheRet iv
                (case compileValue ext callee s of
                   Inl e \<Rightarrow> Inl e
                 | Inr (fnE, s1) \<Rightarrow>
                    (case compileValues ext args (funcKind ext callee) s1 of
                       Inl e \<Rightarrow> Inl e
                     | Inr (argEs, s2) \<Rightarrow> emit (Op_Call fnE argEs) s2))
          | BinOp a ope X Y \<Rightarrow>
              cacheRet iv
                (case compileValue ext X s of
                   Inl e \<Rightarrow> Inl e
                 | Inr (x, s1) \<Rightarrow>
                    (case compileValue ext Y s1 of
                       Inl e \<Rightarrow> Inl e
                     | Inr (y, s2) \<Rightarrow> emit (Op_BinOp ope x y) s2))
          | UnOp a ope X \<Rightarrow>
              cacheRet iv
                (case compileValue ext X s of
                   Inl e \<Rightarrow> Inl e
                 | Inr (x, s1) \<Rightarrow> emit (Op_UnOp ope x) s1)
          | IndexAddr a X Idx \<Rightarrow>
              cacheRet iv
                (case compileValue ext X s of
                   Inl e \<Rightarrow> Inl e
                 | Inr (x, s1) \<Rightarrow>
                    (case compileValue ext Idx s1 of
                       Inl e \<Rightarrow> Inl e
                     | Inr (idx, s2) \<Rightarrow> emit (Op_IndexAddr x idx) s2))
          | Alloc a t heap \<Rightarrow> cacheRet iv (emit (Op_Alloc (progType ext t) heap) s)
          | OtherIV a k \<Rightarrow> Inl (UnknownInstrAndValue k)))"
| "compileValue ext v s =
     (case v of
        InstrVal iv \<Rightarrow> compileInstrAndValue ext iv s
      | Parameter a ps \<Rightarrow>
         (case paramIndex a ps 0 of
            Some idx \<Rightarrow> (case fnParam idx s of Inl e \<Rightarrow> Inl e | Inr x \<Rightarrow> Inr (x, s))
          | None \<Rightarrow> Inl (UnknownValue ''*ssa.Parameter''))
      | Function f \<Rightarrow>
         (case funcOf ext f s of Inl e \<Rightarrow> Inl e | Inr h \<Rightarrow> Inr (FnExpr h, s))
      | Global g \<Rightarrow>
         (case varOf ext g s of Inl e \<Rightarrow> Inl e | Inr h \<Rightarrow> Inr (GlobalExpr h, s))
      | Const val t \<Rightarrow> Inr (ConstExpr val (progType ext t), s)
      | OtherValue k \<Rightarrow> Inl (UnknownValue k))"
| "compileValues ext vals hasVArg s =
     (let n = int (length vals) - hasVArg in
      if n < 0 then Inl MakeSliceLenOutOfRange
      else
        (case compileValuesLoop ext vals (nat n) s of
           Inl e \<Rightarrow> Inl e
         | Inr (ret, s1) \<Rightarrow>
            if hasVArg > 0 then
              (if nat n < length vals then
                 (case compileVArg ret (vals ! nat n) of
                    Inl e \<Rightarrow> Inl e
                  | Inr ret' \<Rightarrow> Inr (ret', s1))
               else Inl IndexOutOfRange)
            else Inr (ret, s1)))"
| "compileValuesLoop ext vs 0 s = Inr ([], s)"
| "compileValuesLoop ext [] (Suc k) s = Inl IndexOutOfRange"
| "compileValuesLoop ext (v # vs) (Suc k) s =
     (case compileValue ext v s of
        Inl e \<Rightarrow> Inl e
      | Inr (x, s1) \<Rightarrow>
         (case compileValuesLoop ext vs k s1 of
            Inl e \<Rightarrow> Inl e
          | Inr (xs, s2) \<Rightarrow> Inr (x # xs, s2)))"

fun compileInstr :: "externals \<Rightarrow> ssa_Instruction \<Rightarrow> context \<Rightarrow> panic + context" where
  "compileInstr ext (IV iv) s =
     (case compileInstrAndValue ext iv s of Inl e \<Rightarrow> Inl e | Inr (r, s1) \<Rightarrow> Inr s1)"
| "compileInstr ext (Store Addr Val) s =
     (case compileValue ext Addr s of
        Inl e \<Rightarrow> Inl e
      | Inr (ptr, s1) \<Rightarrow>
         (case compileValue ext Val s1 of
            Inl e \<Rightarrow> Inl e
          | Inr (val, s2) \<Rightarrow>
             (case emit (Op_Store ptr val) s2 of Inl e \<Rightarrow> Inl e | Inr (r, s3) \<Rightarrow> Inr s3)))"
| "compileInstr ext (Jump succs) s =
     (if 0 < length succs then
        (case fnBlock (succs ! 0) s of
           Inl e \<Rightarrow> Inl e
         | Inr (h, jmpb) \<Rightarrow>
            (case emit (Op_Jump jmpb) s of Inl e \<Rightarrow> Inl e | Inr (r, s1) \<Rightarrow> Inr s1))
      else Inl IndexOutOfRange)"
| "compileInstr ext (Return Results) s =
     (case compileValuesLoop ext Results (length Results) s of
        Inl e \<Rightarrow> Inl e
      | Inr (results, s1) \<Rightarrow>
         (case emit (Op_Return results) s1 of Inl e \<Rightarrow> Inl e | Inr (r, s2) \<Rightarrow> Inr s2))"
| "compileInstr ext (IfInstr Cond succs) s =
     (case compileValue ext Cond s of
        Inl e \<Rightarrow> Inl e
      | Inr (cond, s1) \<Rightarrow>
         if 0 < length succs then
           (case fnBlock (succs ! 0) s1 of
              Inl e \<Rightarrow> Inl e
            | Inr (h, thenb) \<Rightarrow>
               if 1 < length succs then
                 (case fnBlock (succs ! 1) s1 of
                    Inl e \<Rightarrow> Inl e
                  | Inr (h', elseb) \<Rightarrow>
                     (case emit (Op_If cond thenb elseb) s1 of
                        Inl e \<Rightarrow> Inl e
                      | Inr (r, s2) \<Rightarrow> Inr s2))
               else Inl IndexOutOfRange)
         else Inl IndexOutOfRange)"
| "compileInstr ext (OtherInstr k) s = Inl (UnknownInstr k)"

text \<open>The loop of \<^verbatim>\<open>compileBlock\<close> over \<^verbatim>\<open>block.Instrs\<close>.\<close>

fun compileInstrs :: "externals \<Rightarrow> ssa_Instruction list \<Rightarrow> context \<Rightarrow> panic + context" where
  "compileInstrs ext [] s = Inr s"
| "compileInstrs ext (instr # rest) s =
     (case compileInstr ext instr s of Inl e \<Rightarrow> Inl e | Inr s1 \<Rightarrow> compileInstrs ext rest s1)"

text \<open>
  \<^verbatim>\<open>p.pkg.FuncOf("main.init")\<close> followed by \<^verbatim>\<open>b.Call(fn.Expr)\<close>: the expression
  of a function that is not declared is read through a nil handle.
\<close>

definition callInit :: "context \<Rightarrow> panic + context" where
  "callInit s =
     (case p_fnIdx (pkg s) ''main.init'' of
        None \<Rightarrow> Inl NilDereference
      | Some h \<Rightarrow>
         (case emit (Op_Call (FnExpr h) []) s of Inl e \<Rightarrow> Inl e | Inr (r, s1) \<Rightarrow> Inr s1))"

definition compileBlock :: "externals \<Rightarrow> BasicBlock \<Rightarrow> bool \<Rightarrow> context \<Rightarrow> panic + ((nat \<times> nat) \<times> context)" where
  "compileBlock ext block doInit s =
     (case fnBlock (Index block) s of
        Inl e \<Rightarrow> Inl e
      | Inr ret \<Rightarrow>
         (let s1 = s\<lparr>b_blk := Some ret\<rparr>;
              s2 = s1\<lparr>bvals := Map.empty\<rparr> in
          case (if doInit then callInit s2 else Inr s2) of
            Inl e \<Rightarrow> Inl e
          | Inr s3 \<Rightarrow>
             (case compileInstrs ext (Instrs block) s3 of
                Inl e \<Rightarrow> Inl e
              | Inr s4 \<Rightarrow> Inr (ret, s4))))"

text \<open>
  The loop \<^verbatim>\<open>for i, block := range f.Blocks\<close> of the closure, from index \<open>i\<close> on.
\<close>

fun compileBlocks :: "externals \<Rightarrow> string \<Rightarrow> nat \<Rightarrow> BasicBlock list \<Rightarrow> context \<Rightarrow> panic + context" where
  "compileBlocks ext name i [] s = Inr s"
| "compileBlocks ext name i (block # rest) s =
     (case compileBlock ext block (i = 0 \<and> name = ''main'') s of
        Inl e \<Rightarrow> Inl e
      | Inr (ret, s1) \<Rightarrow> compileBlocks ext name (Suc i) rest s1)"

text \<open>
  The body of the closure that \<^verbatim>\<open>compileFunc\<close> registers. The deferred
  \<^verbatim>\<open>p.fn = nil\<close> runs on both ways out; a panic leaves no context behind.
\<close>

definition runInit :: "externals \<Rightarrow> initClosure \<Rightarrow> context \<Rightarrow> panic + context" where
  "runInit ext c s =
     (let s1 = s\<lparr>fn := Some (c_fn c)\<rparr>;
          nblk = length (Blocks (c_f c)) in
      if nblk = 0 then Inr (s1\<lparr>fn := None\<rparr>)
      else
        (let s2 = s1\<lparr>pkg := MakeBlocks (c_fn c) nblk (pkg s1)\<rparr>;
             s3 = s2\<lparr>b_blk := None\<rparr> in
         case compileBlocks ext (c_name c) 0 (Blocks (c_f c)) s3 of
           Inl e \<Rightarrow> Inl e
         | Inr s4 \<Rightarrow> Inr (s4\<lparr>fn := None\<rparr>)))"

section \<open>Declaring the members\<close>

definition compileType :: "string \<Rightarrow> token_Pos \<Rightarrow> context \<Rightarrow> panic + context" where
  "compileType n p s = Inl Todo"

definition compileGlobal :: "externals \<Rightarrow> GlobalInfo \<Rightarrow> context \<Rightarrow> context" where
  "compileGlobal ext gbl s =
     (let typ = g_type gbl;
          name = fullName ext (g_pkgPath gbl) (g_name gbl);
          (g, p1) = NewVar name (progType ext typ) (pkg s) in
      s\<lparr>pkg := InitVar g (NullExpr (progType ext typ)) p1\<rparr>)"

definition compileFunc :: "externals \<Rightarrow> ssa_Function \<Rightarrow> context \<Rightarrow> context" where
  "compileFunc ext f s =
     (let name = funcName ext (fn_pkgPath (info f)) (info f);
          (h, p1) = NewFunc name (fn_Signature (info f)) (pkg s) in
      s\<lparr>pkg := p1, inits := inits s @ [\<lparr>c_name = name, c_fn = h, c_f = f\<rparr>]\<rparr>)"

text \<open>One round of the loop of \<^verbatim>\<open>NewPackage\<close> over the sorted members.\<close>

fun declareMember :: "externals \<Rightarrow> Member \<Rightarrow> context \<Rightarrow> panic + context" where
  "declareMember ext (MFunction member) s =
     (if fn_typeparams (info member) \<noteq> None then Inr s
      else Inr (compileFunc ext member s))"
| "declareMember ext (MType n p) s = compileType n p s"
| "declareMember ext (MGlobal member) s = Inr (compileGlobal ext member s)"
| "declareMember ext (MNamedConst n p) s = Inr s"

fun declareMembers :: "externals \<Rightarrow> Member list \<Rightarrow> context \<Rightarrow> panic + context" where
  "declareMembers ext [] s = Inr s"
| "declareMembers ext (m # ms) s =
     (case declareMember ext m s of Inl e \<Rightarrow> Inl e | Inr s1 \<Rightarrow> declareMembers ext ms s1)"

text \<open>The loop \<^verbatim>\<open>for _, ini := range ctx.inits { ini() }\<close>.\<close>

fun runInits :: "externals \<Rightarrow> initClosure list \<Rightarrow> context \<Rightarrow> panic + context" where
  "runInits ext [] s = Inr s"
| "runInits ext (ini # rest) s =
     (case runInit ext ini s of Inl e \<Rightarrow> Inl e | Inr s1 \<Rightarrow> runInits ext rest s1)"

section \<open>NewPackage\<close>

text \<open>
  \<^verbatim>\<open>sort.Slice\<close> with the comparison \<^verbatim>\<open>iPos < jPos\<close> is \<open>sort_key\<close> here.
  \<^verbatim>\<open>sort.Slice\<close> promises no order among members of equal position, and
  \<open>sort_key\<close> keeps them in the order of the list; members with pairwise distinct
  positions end in one order only, whatever the sorting algorithm.
\<close>

definition sortedMembers :: "ssa_Package \<Rightarrow> Member list" where
  "sortedMembers spkg = map snd (sort_key (\<lambda>m. member_Pos (snd m)) (Members spkg))"

definition newContext :: "ssa_Package \<Rightarrow> context" where
  "newContext spkg =
     \<lparr>pkg = \<lparr>p_name = pkg_name spkg, p_path = pkg_path spkg,
             p_fns = [], p_fnIdx = Map.empty, p_vars = [], p_varIdx = Map.empty\<rparr>,
      fn = None, bvals = Map.empty, inits = [], b_blk = None\<rparr>"

text \<open>
  \<^verbatim>\<open>ctx.initFiles\<close> fills the link-name table that \<^verbatim>\<open>funcName\<close> reads; both are
  outside cl/compile.go, and the table is part of the parameter \<open>funcName\<close> here.
\<close>

definition NewPackage :: "externals \<Rightarrow> ssa_Package \<Rightarrow> panic + Package" where
  "NewPackage ext spkg =
     (case declareMembers ext (sortedMembers spkg) (newContext spkg) of
        Inl e \<Rightarrow> Inl e
      | Inr ctx \<Rightarrow>
         (case runInits ext (inits ctx) ctx of
            Inl e \<Rightarrow> Inl e
          | Inr ctx' \<Rightarrow> Inr (pkg ctx')))"

section \<open>Relations between contexts\<close>

text \<open>
  \<open>opsAt s (h, i)\<close> is the content of block \<open>i\<close> of function \<open>h\<close>. \<open>frame s s'\<close>
  holds when \<open>s'\<close> differs from \<open>s\<close> at most in the block-value map and in operations
  appended to the block the builder is set to. \<open>grows n s s'\<close> holds when the
  block-value map of \<open>s'\<close> extends that of \<open>s\<close> by entries for instructions of size
  below \<open>n\<close>, none of an unlisted kind.
\<close>

definition opsAt :: "context \<Rightarrow> nat \<times> nat \<Rightarrow> Op list" where
  "opsAt s bb = f_blks (p_fns (pkg s) ! fst bb) ! snd bb"

definition frame :: "context \<Rightarrow> context \<Rightarrow> bool" where
  "frame s s' \<longleftrightarrow>
     fn s' = fn s \<and> b_blk s' = b_blk s \<and> inits s' = inits s
     \<and> p_name (pkg s') = p_name (pkg s) \<and> p_path (pkg s') = p_path (pkg s)
     \<and> p_fnIdx (pkg s') = p_fnIdx (pkg s) \<and> p_varIdx (pkg s') = p_varIdx (pkg s)
     \<and> p_vars (pkg s') = p_vars (pkg s)
     \<and> map f_name (p_fns (pkg s')) = map f_name (p_fns (pkg s))
     \<and> map f_sig (p_fns (pkg s')) = map f_sig (p_fns (pkg s))
     \<and> map (\<lambda>f. length (f_blks f)) (p_fns (pkg s')) = map (\<lambda>f. length (f_blks f)) (p_fns (pkg s))
     \<and> (\<forall>bb. prefix (opsAt s bb) (opsAt s' bb))
     \<and> (\<forall>bb. b_blk s \<noteq> Some bb \<longrightarrow> opsAt s' bb = opsAt s bb)"

fun isOther :: "instrAndValue \<Rightarrow> bool" where
  "isOther (OtherIV a k) = True"
| "isOther iv = False"

definition grows :: "nat \<Rightarrow> context \<Rightarrow> context \<Rightarrow> bool" where
  "grows n s s' \<longleftrightarrow>
     (\<forall>k. bvals s' k = bvals s k \<or> (bvals s k = None \<and> size k < n \<and> \<not> isOther k))"

text \<open>\<open>keeps s s'\<close>: both relations hold, for some bound.\<close>

definition keeps :: "context \<Rightarrow> context \<Rightarrow> bool" where
  "keeps s s' \<longleftrightarrow> frame s s' \<and> (\<exists>n. grows n s s')"

text \<open>
  \<open>fresh s s'\<close>: every entry of the block-value map of \<open>s'\<close> is an entry of the map
  of \<open>s\<close> or names an operation that the block the builder is set to has in \<open>s'\<close>
  and had not in \<open>s\<close>.
\<close>

definition fresh :: "context \<Rightarrow> context \<Rightarrow> bool" where
  "fresh s s' \<longleftrightarrow>
     (\<forall>k e. bvals s' k = Some e \<longrightarrow>
        bvals s k = Some e
        \<or> (\<exists>h i j. b_blk s = Some (h, i) \<and> e = InstrExpr h i j
              \<and> length (opsAt s (h, i)) \<le> j \<and> j < length (opsAt s' (h, i))))"

text \<open>
  \<open>decls s\<close> is what the declare phase produces: the names and signatures of the
  functions in declaration order, the globals, both registries and the registered
  closures. \<open>regOK s\<close> holds when every registry entry leads to a declaration of that
  name.
\<close>

definition decls :: "context \<Rightarrow> string \<times> string \<times> (string \<rightharpoonup> nat) \<times> (string \<rightharpoonup> nat)
    \<times> llGlobal list \<times> string list \<times> types_Signature list \<times> initClosure list" where
  "decls s = (p_name (pkg s), p_path (pkg s), p_fnIdx (pkg s), p_varIdx (pkg s), p_vars (pkg s),
              map f_name (p_fns (pkg s)), map f_sig (p_fns (pkg s)), inits s)"

definition regOK :: "context \<Rightarrow> bool" where
  "regOK s \<longleftrightarrow>
     (\<forall>n h. p_fnIdx (pkg s) n = Some h \<longrightarrow>
        h < length (p_fns (pkg s)) \<and> f_name (p_fns (pkg s) ! h) = n)
     \<and> (\<forall>n h. p_varIdx (pkg s) n = Some h \<longrightarrow>
        h < length (p_vars (pkg s)) \<and> v_name (p_vars (pkg s) ! h) = n)"

text \<open>
  \<open>blockCounts s\<close>: for every declared function, the number of blocks it has.
\<close>

definition blockCounts :: "context \<Rightarrow> nat list" where
  "blockCounts s = map (\<lambda>f. length (f_blks f)) (p_fns (pkg s))"

section \<open>Auxiliary notions for the properties\<close>

text \<open>
  The spec's words for the non-variadic prefix: the values are lowered positionally, in
  order, each in the context the one before it left.
\<close>

fun lowerInOrder :: "externals \<Rightarrow> ssa_Value list \<Rightarrow> context \<Rightarrow> panic + (Expr list \<times> context)" where
  "lowerInOrder ext [] s = Inr ([], s)"
| "lowerInOrder ext (v # vs) s =
     (case compileValue ext v s of
        Inl e \<Rightarrow> Inl e
      | Inr (x, s1) \<Rightarrow>
         (case lowerInOrder ext vs s1 of
            Inl e \<Rightarrow> Inl e
          | Inr (xs, s2) \<Rightarrow> Inr (x # xs, s2)))"

text \<open>
  The members the loop of \<open>NewPackage\<close> declares: the functions without type
  parameters and the globals, each list in the order of the members.
\<close>

fun nonGenericFuncs :: "Member list \<Rightarrow> ssa_Function list" where
  "nonGenericFuncs [] = []"
| "nonGenericFuncs (MFunction f # ms) =
     (if fn_typeparams (info f) \<noteq> None then nonGenericFuncs ms else f # nonGenericFuncs ms)"
| "nonGenericFuncs (m # ms) = nonGenericFuncs ms"

fun globalsOf :: "Member list \<Rightarrow> GlobalInfo list" where
  "globalsOf [] = []"
| "globalsOf (MGlobal g # ms) = g # globalsOf ms"
| "globalsOf (m # ms) = globalsOf ms"

fun isType :: "Member \<Rightarrow> bool" where
  "isType (MType n p) = True"
| "isType m = False"

fun isDeclaredFunc :: "Member \<Rightarrow> bool" where
  "isDeclaredFunc (MFunction f) = (fn_typeparams (info f) = None)"
| "isDeclaredFunc m = False"

fun isGlobalMember :: "Member \<Rightarrow> bool" where
  "isGlobalMember (MGlobal g) = True"
| "isGlobalMember m = False"

definition declName :: "externals \<Rightarrow> ssa_Function \<Rightarrow> string" where
  "declName ext f = funcName ext (fn_pkgPath (info f)) (info f)"

definition globalName :: "externals \<Rightarrow> GlobalInfo \<Rightarrow> string" where
  "globalName ext g = fullName ext (g_pkgPath g) (g_name g)"

definition declFuncs :: "externals \<Rightarrow> ssa_Function list \<Rightarrow> context \<Rightarrow> context" where
  "declFuncs ext fs s = foldl (\<lambda>s f. compileFunc ext f s) s fs"

definition declGlobals :: "externals \<Rightarrow> GlobalInfo list \<Rightarrow> context \<Rightarrow> context" where
  "declGlobals ext gs s = foldl (\<lambda>s g. compileGlobal ext g s) s gs"

text \<open>
  The panic that the lowering of an instruction of an unlisted kind raises; \<open>None\<close>
  for the kinds the type switches list.
\<close>

fun unsupportedPanic :: "ssa_Instruction \<Rightarrow> panic option" where
  "unsupportedPanic (OtherInstr k) = Some (UnknownInstr k)"
| "unsupportedPanic (IV (OtherIV a k)) = Some (UnknownInstrAndValue k)"
| "unsupportedPanic instr = None"

text \<open>
  The spec's words for a block other than the entry block of the entry function: the
  blocks are built in order, none with the call to the package initializer.
\<close>

fun buildBlocksPlain :: "externals \<Rightarrow> BasicBlock list \<Rightarrow> context \<Rightarrow> panic + context" where
  "buildBlocksPlain ext [] s = Inr s"
| "buildBlocksPlain ext (block # rest) s =
     (case compileBlock ext block False s of
        Inl e \<Rightarrow> Inl e
      | Inr (ret, s1) \<Rightarrow> buildBlocksPlain ext rest s1)"

text \<open>
  The closure that \<open>compileFunc\<close> registers for the function \<open>f\<close> declared under the
  handle \<open>i\<close>.
\<close>

definition closureOf :: "externals \<Rightarrow> nat \<times> ssa_Function \<Rightarrow> initClosure" where
  "closureOf ext = (\<lambda>(i, f). \<lparr>c_name = declName ext f, c_fn = i, c_f = f\<rparr>)"

section \<open>The calls of a translation\<close>

text \<open>
  \<open>unsupportedInV ext v\<close>: the value \<open>v\<close> is of an unlisted kind, or a value that is
  lowered with it is (the callee and the arguments of a call that is not skipped, the
  operands of an operation).
\<close>

fun unsupportedInV :: "externals \<Rightarrow> ssa_Value \<Rightarrow> bool"
and unsupportedInIV :: "externals \<Rightarrow> instrAndValue \<Rightarrow> bool" where
  "unsupportedInV ext (Parameter a ps) = False"
| "unsupportedInV ext (Function f) = False"
| "unsupportedInV ext (Global g) = False"
| "unsupportedInV ext (Const val t) = False"
| "unsupportedInV ext (OtherValue k) = True"
| "unsupportedInV ext (InstrVal iv) = unsupportedInIV ext iv"
| "unsupportedInIV ext (Call a callee args) =
     (funcKind ext callee \<noteq> fnUnsafeInit
      \<and> (unsupportedInV ext callee \<or> (\<exists>v \<in> set args. unsupportedInV ext v)))"
| "unsupportedInIV ext (BinOp a ope X Y) = (unsupportedInV ext X \<or> unsupportedInV ext Y)"
| "unsupportedInIV ext (UnOp a ope X) = unsupportedInV ext X"
| "unsupportedInIV ext (IndexAddr a X Idx) = (unsupportedInV ext X \<or> unsupportedInV ext Idx)"
| "unsupportedInIV ext (Alloc a t heap) = False"
| "unsupportedInIV ext (OtherIV a k) = True"

text \<open>The same for an instruction.\<close>

fun unsupportedIn :: "externals \<Rightarrow> ssa_Instruction \<Rightarrow> bool" where
  "unsupportedIn ext (IV iv) = unsupportedInIV ext iv"
| "unsupportedIn ext (Store Addr Val) = (unsupportedInV ext Addr \<or> unsupportedInV ext Val)"
| "unsupportedIn ext (Jump succs) = False"
| "unsupportedIn ext (Return Results) = (\<exists>v \<in> set Results. unsupportedInV ext v)"
| "unsupportedIn ext (IfInstr Cond succs) = unsupportedInV ext Cond"
| "unsupportedIn ext (OtherInstr k) = True"

text \<open>
  \<open>cleanCache ext s\<close>: the block-value map of \<open>s\<close> has no entry for an instruction
  with a construct of an unlisted kind.
\<close>

definition cleanCache :: "externals \<Rightarrow> context \<Rightarrow> bool" where
  "cleanCache ext s \<longleftrightarrow> (\<forall>iv. bvals s iv \<noteq> None \<longrightarrow> \<not> unsupportedInIV ext iv)"

text \<open>
  The calls that a translation makes: \<open>NewPackage\<close> and the functions of the build
  phase, one constructor for each, with the arguments and the context of the call. (The
  declare phase lowers nothing; its calls are not listed.)
\<close>

datatype invocation =
    At_compileInstrAndValue instrAndValue "context"
  | At_compileValue ssa_Value "context"
  | At_compileValues "ssa_Value list" int "context"
  | At_compileValuesLoop "ssa_Value list" nat "context"
  | At_compileInstr ssa_Instruction "context"
  | At_compileInstrs "ssa_Instruction list" "context"
  | At_compileBlock BasicBlock bool "context"
  | At_compileBlocks string nat "BasicBlock list" "context"
  | At_runInit initClosure "context"
  | At_runInits "initClosure list" "context"
  | At_NewPackage ssa_Package

text \<open>
  \<open>failure r\<close>: the panic of the result \<open>r\<close>, \<open>None\<close> if \<open>r\<close> is a value.
  \<open>panicOf ext c\<close>: the panic the call \<open>c\<close> ends in, \<open>None\<close> if it returns.
\<close>

definition failure :: "panic + 'a \<Rightarrow> panic option" where
  "failure r = (case r of Inl e \<Rightarrow> Some e | Inr x \<Rightarrow> None)"

fun panicOf :: "externals \<Rightarrow> invocation \<Rightarrow> panic option" where
  "panicOf ext (At_compileInstrAndValue iv s) = failure (compileInstrAndValue ext iv s)"
| "panicOf ext (At_compileValue v s) = failure (compileValue ext v s)"
| "panicOf ext (At_compileValues vals hasVArg s) = failure (compileValues ext vals hasVArg s)"
| "panicOf ext (At_compileValuesLoop vs k s) = failure (compileValuesLoop ext vs k s)"
| "panicOf ext (At_compileInstr instr s) = failure (compileInstr ext instr s)"
| "panicOf ext (At_compileInstrs instrs s) = failure (compileInstrs ext instrs s)"
| "panicOf ext (At_compileBlock block doInit s) = failure (compileBlock ext block doInit s)"
| "panicOf ext (At_compileBlocks name i blocks s) = failure (compileBlocks ext name i blocks s)"
| "panicOf ext (At_runInit c s) = failure (runInit ext c s)"
| "panicOf ext (At_runInits cs s) = failure (runInits ext cs s)"
| "panicOf ext (At_NewPackage spkg) = failure (NewPackage ext spkg)"

text \<open>
  \<open>thenCall r k\<close>: the calls \<open>k x\<close> that follow a call with the result \<open>r\<close>, none if that
  call panicked.
\<close>

definition thenCall :: "panic + 'a \<Rightarrow> ('a \<Rightarrow> invocation list) \<Rightarrow> invocation list" where
  "thenCall r k = (case r of Inl e \<Rightarrow> [] | Inr x \<Rightarrow> k x)"

text \<open>
  \<open>callees ext c\<close>: the calls that the call \<open>c\<close> makes itself, in the order in which it
  makes them, each in the context that the calls before it left. A call that follows a
  call that panicked is not made. (A loop is a recursive function here, so that the
  rest of a loop is a call too.)
\<close>

fun callees :: "externals \<Rightarrow> invocation \<Rightarrow> invocation list" where
  "callees ext (At_compileInstrAndValue iv s) =
     (case bvals s iv of
        Some v \<Rightarrow> []
      | None \<Rightarrow>
         (case iv of
            Call a callee args \<Rightarrow>
              if funcKind ext callee = fnUnsafeInit then []
              else At_compileValue callee s #
                thenCall (compileValue ext callee s)
                  (\<lambda>(fnE, s1). [At_compileValues args (funcKind ext callee) s1])
          | BinOp a ope X Y \<Rightarrow>
              At_compileValue X s #
                thenCall (compileValue ext X s) (\<lambda>(x, s1). [At_compileValue Y s1])
          | UnOp a ope X \<Rightarrow> [At_compileValue X s]
          | IndexAddr a X Idx \<Rightarrow>
              At_compileValue X s #
                thenCall (compileValue ext X s) (\<lambda>(x, s1). [At_compileValue Idx s1])
          | Alloc a t heap \<Rightarrow> []
          | OtherIV a k \<Rightarrow> []))"
| "callees ext (At_compileValue v s) =
     (case v of InstrVal iv \<Rightarrow> [At_compileInstrAndValue iv s] | _ \<Rightarrow> [])"
| "callees ext (At_compileValues vals hasVArg s) =
     (let n = int (length vals) - hasVArg in
      if n < 0 then [] else [At_compileValuesLoop vals (nat n) s])"
| "callees ext (At_compileValuesLoop vs 0 s) = []"
| "callees ext (At_compileValuesLoop [] (Suc k) s) = []"
| "callees ext (At_compileValuesLoop (v # vs) (Suc k) s) =
     At_compileValue v s #
       thenCall (compileValue ext v s) (\<lambda>(x, s1). [At_compileValuesLoop vs k s1])"
| "callees ext (At_compileInstr (IV iv) s) = [At_compileInstrAndValue iv s]"
| "callees ext (At_compileInstr (Store Addr Val) s) =
     At_compileValue Addr s #
       thenCall (compileValue ext Addr s) (\<lambda>(ptr, s1). [At_compileValue Val s1])"
| "callees ext (At_compileInstr (Jump succs) s) = []"
| "callees ext (At_compileInstr (Return Results) s) =
     [At_compileValuesLoop Results (length Results) s]"
| "callees ext (At_compileInstr (IfInstr Cond succs) s) = [At_compileValue Cond s]"
| "callees ext (At_compileInstr (OtherInstr k) s) = []"
| "callees ext (At_compileInstrs [] s) = []"
| "callees ext (At_compileInstrs (instr # rest) s) =
     At_compileInstr instr s #
       thenCall (compileInstr ext instr s) (\<lambda>s1. [At_compileInstrs rest s1])"
| "callees ext (At_compileBlock block doInit s) =
     thenCall (fnBlock (Index block) s)
       (\<lambda>ret. let s2 = s\<lparr>b_blk := Some ret, bvals := Map.empty\<rparr> in
          thenCall (if doInit then callInit s2 else Inr s2)
            (\<lambda>s3. [At_compileInstrs (Instrs block) s3]))"
| "callees ext (At_compileBlocks name i [] s) = []"
| "callees ext (At_compileBlocks name i (block # rest) s) =
     At_compileBlock block (i = 0 \<and> name = ''main'') s #
       thenCall (compileBlock ext block (i = 0 \<and> name = ''main'') s)
         (\<lambda>(ret, s1). [At_compileBlocks name (Suc i) rest s1])"
| "callees ext (At_runInit c s) =
     (let nblk = length (Blocks (c_f c)) in
      if nblk = 0 then []
      else [At_compileBlocks (c_name c) 0 (Blocks (c_f c))
              (s\<lparr>fn := Some (c_fn c), pkg := MakeBlocks (c_fn c) nblk (pkg s),
                 b_blk := None\<rparr>)])"
| "callees ext (At_runInits [] s) = []"
| "callees ext (At_runInits (ini # rest) s) =
     At_runInit ini s # thenCall (runInit ext ini s) (\<lambda>s1. [At_runInits rest s1])"
| "callees ext (At_NewPackage spkg) =
     thenCall (declareMembers ext (sortedMembers spkg) (newContext spkg))
       (\<lambda>ctx. [At_runInits (inits ctx) ctx])"

text \<open>
  \<open>invocations n ext c\<close>: the call \<open>c\<close> and the calls made below it, down to the depth
  \<open>n\<close>.
\<close>

fun invocations :: "nat \<Rightarrow> externals \<Rightarrow> invocation \<Rightarrow> invocation list" where
  "invocations 0 ext c = [c]"
| "invocations (Suc n) ext c = c # concat (map (invocations n ext) (callees ext c))"

text \<open>
  The context in which a call is made.
\<close>

fun ctxOf :: "invocation \<Rightarrow> context" where
  "ctxOf (At_compileInstrAndValue iv s) = s"
| "ctxOf (At_compileValue v s) = s"
| "ctxOf (At_compileValues vals hasVArg s) = s"
| "ctxOf (At_compileValuesLoop vs k s) = s"
| "ctxOf (At_compileInstr instr s) = s"
| "ctxOf (At_compileInstrs instrs s) = s"
| "ctxOf (At_compileBlock block doInit s) = s"
| "ctxOf (At_compileBlocks name i blocks s) = s"
| "ctxOf (At_runInit c s) = s"
| "ctxOf (At_runInits cs s) = s"
| "ctxOf (At_NewPackage spkg) = newContext spkg"

section \<open>Concrete inputs\<close>

definition ext0 :: externals where
  "ext0 = \<lparr>NameValist = ''__llgo_va_list'',
           funcName = (\<lambda>path f. (if path = [] then [] else path @ ''.'') @ fn_name f),
           fullName = (\<lambda>path name. path @ ''.'' @ name),
           progType = (\<lambda>t. t)\<rparr>"

definition sig0 :: types_Signature where
  "sig0 = \<lparr>sig_recv = None, sig_params = []\<rparr>"

definition unsafe_init :: FunctionInfo where
  "unsafe_init = \<lparr>fn_name = ''init'', fn_pkgPath = ''unsafe'', fn_Signature = sig0,
                  fn_Params = [], fn_typeparams = None, fn_pos = 0\<rparr>"

definition printf :: FunctionInfo where
  "printf = \<lparr>fn_name = ''printf'', fn_pkgPath = ''main'',
             fn_Signature = \<lparr>sig_recv = None,
                sig_params = [\<lparr>var_name = ''format'', var_type = ''*int8''\<rparr>,
                              \<lparr>var_name = ''__llgo_va_list'', var_type = ''...any''\<rparr>]\<rparr>,
             fn_Params = [1, 2], fn_typeparams = None, fn_pos = 10\<rparr>"

definition method0 :: FunctionInfo where
  "method0 = \<lparr>fn_name = ''init'', fn_pkgPath = ''unsafe'',
              fn_Signature = \<lparr>sig_recv = Some \<lparr>var_name = ''t'', var_type = ''T''\<rparr>,
                               sig_params = []\<rparr>,
              fn_Params = [3], fn_typeparams = None, fn_pos = 20\<rparr>"

definition ctxA :: "context" where
  "ctxA = \<lparr>pkg = \<lparr>p_name = ''main'', p_path = ''main'',
                    p_fns = [\<lparr>f_name = ''main.f'', f_sig = sig0, f_blks = [[]]\<rparr>],
                    p_fnIdx = [''main.f'' \<mapsto> 0], p_vars = [], p_varIdx = Map.empty\<rparr>,
             fn = Some 0, bvals = Map.empty, inits = [], b_blk = Some (0, 0)\<rparr>"

definition alloc1 :: instrAndValue where
  "alloc1 = Alloc 1 ''int'' False"

definition ctxA1 :: "context" where
  "ctxA1 = \<lparr>pkg = \<lparr>p_name = ''main'', p_path = ''main'',
                    p_fns = [\<lparr>f_name = ''main.f'', f_sig = sig0,
                              f_blks = [[Op_Alloc ''int'' False]]\<rparr>],
                    p_fnIdx = [''main.f'' \<mapsto> 0], p_vars = [], p_varIdx = Map.empty\<rparr>,
             fn = Some 0, bvals = [alloc1 \<mapsto> InstrExpr 0 0 0], inits = [],
             b_blk = Some (0, 0)\<rparr>"

definition users :: "ssa_Instruction list" where
  "users = [IV (UnOp 2 ''*'' (InstrVal alloc1)),
            IV (BinOp 3 ''+'' (InstrVal alloc1) (InstrVal alloc1))]"

definition printfCall :: instrAndValue where
  "printfCall = Call 7 (Function printf) [Const (Some ''hello'') ''*int8'', Const None ''...any'']"

definition ctxP :: "context" where
  "ctxP = \<lparr>pkg = \<lparr>p_name = ''main'', p_path = ''main'',
                    p_fns = [\<lparr>f_name = ''main.f'', f_sig = sig0, f_blks = [[]]\<rparr>,
                             \<lparr>f_name = ''main.printf'', f_sig = fn_Signature printf, f_blks = []\<rparr>],
                    p_fnIdx = [''main.f'' \<mapsto> 0, ''main.printf'' \<mapsto> 1],
                    p_vars = [], p_varIdx = Map.empty\<rparr>,
             fn = Some 0, bvals = Map.empty, inits = [], b_blk = Some (0, 0)\<rparr>"

definition fB_info :: FunctionInfo where
  "fB_info = \<lparr>fn_name = ''B'', fn_pkgPath = ''main'', fn_Signature = sig0,
              fn_Params = [], fn_typeparams = None, fn_pos = 20\<rparr>"

definition gV :: GlobalInfo where
  "gV = \<lparr>g_name = ''V'', g_pkgPath = ''main'', g_type = ''int'', g_pos = 30\<rparr>"

definition fA :: ssa_Function where
  "fA = \<lparr>info = \<lparr>fn_name = ''A'', fn_pkgPath = ''main'', fn_Signature = sig0,
                  fn_Params = [], fn_typeparams = None, fn_pos = 10\<rparr>,
         Blocks = [\<lparr>Index = 0,
                    Instrs = [IV (Call 1 (Function fB_info) []),
                              IV (UnOp 2 ''*'' (Global gV)),
                              Return []]\<rparr>]\<rparr>"

definition fB :: ssa_Function where
  "fB = \<lparr>info = fB_info, Blocks = [\<lparr>Index = 0, Instrs = [Return []]\<rparr>]\<rparr>"

definition pkgAB :: ssa_Package where
  "pkgAB = \<lparr>pkg_name = ''main'', pkg_path = ''main'',
            Members = [(''V'', MGlobal gV), (''B'', MFunction fB), (''A'', MFunction fA)]\<rparr>"

definition pkgT :: ssa_Package where
  "pkgT = \<lparr>pkg_name = ''main'', pkg_path = ''main'',
           Members = [(''T'', MType ''T'' 5)]\<rparr>"

definition genericF :: ssa_Function where
  "genericF = \<lparr>info = \<lparr>fn_name = ''Map'', fn_pkgPath = ''main'', fn_Signature = sig0,
                        fn_Params = [], fn_typeparams = Some [''T''], fn_pos = 30\<rparr>,
               Blocks = [\<lparr>Index = 0, Instrs = [Return []]\<rparr>]\<rparr>"

definition pkgG :: ssa_Package where
  "pkgG = \<lparr>pkg_name = ''main'', pkg_path = ''main'',
           Members = [(''Map'', MFunction genericF), (''B'', MFunction fB)]\<rparr>"

definition fPanic :: ssa_Function where
  "fPanic = \<lparr>info = \<lparr>fn_name = ''P'', fn_pkgPath = ''main'', fn_Signature = sig0,
                      fn_Params = [], fn_typeparams = None, fn_pos = 40\<rparr>,
             Blocks = [\<lparr>Index = 0,
                        Instrs = [IV (Alloc 1 ''int'' True), OtherInstr ''*ssa.Panic'']\<rparr>]\<rparr>"

definition pkgP :: ssa_Package where
  "pkgP = \<lparr>pkg_name = ''main'', pkg_path = ''main'',
           Members = [(''P'', MFunction fPanic), (''B'', MFunction fB)]\<rparr>"

definition fMain :: ssa_Function where
  "fMain = \<lparr>info = \<lparr>fn_name = ''main'', fn_pkgPath = [], fn_Signature = sig0,
                     fn_Params = [], fn_typeparams = None, fn_pos = 50\<rparr>,
            Blocks = [\<lparr>Index = 0, Instrs = [IV (Alloc 1 ''int'' True), Jump [1]]\<rparr>,
                      \<lparr>Index = 1, Instrs = [Return []]\<rparr>]\<rparr>"

definition fInit :: ssa_Function where
  "fInit = \<lparr>info = \<lparr>fn_name = ''init'', fn_pkgPath = ''main'', fn_Signature = sig0,
                     fn_Params = [], fn_typeparams = None, fn_pos = 0\<rparr>,
            Blocks = [\<lparr>Index = 0, Instrs = [Return []]\<rparr>]\<rparr>"

definition ctxM :: "context" where
  "ctxM = \<lparr>pkg = \<lparr>p_name = ''main'', p_path = ''main'',
                    p_fns = [\<lparr>f_name = ''main.init'', f_sig = sig0, f_blks = []\<rparr>,
                             \<lparr>f_name = ''main'', f_sig = sig0, f_blks = []\<rparr>],
                    p_fnIdx = [''main.init'' \<mapsto> 0, ''main'' \<mapsto> 1],
                    p_vars = [], p_varIdx = Map.empty\<rparr>,
             fn = None, bvals = Map.empty, inits = [], b_blk = None\<rparr>"

definition cMain :: initClosure where
  "cMain = \<lparr>c_name = ''main'', c_fn = 1, c_f = fMain\<rparr>"

definition cInit :: initClosure where
  "cInit = \<lparr>c_name = ''main.init'', c_fn = 0, c_f = fInit\<rparr>"

definition gGuard :: GlobalInfo where
  "gGuard = \<lparr>g_name = ''init$guard'', g_pkgPath = ''main'', g_type = ''*bool'', g_pos = 0\<rparr>"

definition pkgIG :: ssa_Package where
  "pkgIG = \<lparr>pkg_name = ''main'', pkg_path = ''main'',
            Members = [(''init$guard'', MGlobal gGuard), (''init'', MFunction fInit),
                       (''B'', MFunction fB)]\<rparr>"

definition pkgGI :: ssa_Package where
  "pkgGI = \<lparr>pkg_name = ''main'', pkg_path = ''main'',
            Members = [(''B'', MFunction fB), (''init'', MFunction fInit),
                       (''init$guard'', MGlobal gGuard)]\<rparr>"

definition fX :: ssa_Function where
  "fX = \<lparr>info = \<lparr>fn_name = ''X'', fn_pkgPath = ''main'', fn_Signature = sig0,
                  fn_Params = [], fn_typeparams = None, fn_pos = 60\<rparr>,
         Blocks = []\<rparr>"

definition fY :: ssa_Function where
  "fY = \<lparr>info = \<lparr>fn_name = ''Y'', fn_pkgPath = ''main'', fn_Signature = sig0,
                  fn_Params = [], fn_typeparams = None, fn_pos = 60\<rparr>,
         Blocks = []\<rparr>"

definition pkgXY :: ssa_Package where
  "pkgXY = \<lparr>pkg_name = ''main'', pkg_path = ''main'',
            Members = [(''X'', MFunction fX), (''Y'', MFunction fY)]\<rparr>"

definition pkgYX :: ssa_Package where
  "pkgYX = \<lparr>pkg_name = ''main'', pkg_path = ''main'',
            Members = [(''Y'', MFunction fY), (''X'', MFunction fX)]\<rparr>"

definition blockA :: BasicBlock where
  "blockA = \<lparr>Index = 0, Instrs = [IV alloc1]\<rparr>"

definition pG :: Package where
  "pG = \<lparr>p_name = ''main'', p_path = ''main'',
          p_fns = [\<lparr>f_name = ''main.B'', f_sig = sig0, f_blks = [[Op_Return []]]\<rparr>],
          p_fnIdx = [''main.B'' \<mapsto> 0], p_vars = [], p_varIdx = Map.empty\<rparr>"

definition fLen :: ssa_Function where
  "fLen = \<lparr>info = \<lparr>fn_name = ''L'', fn_pkgPath = ''main'', fn_Signature = sig0,
                    fn_Params = [], fn_typeparams = None, fn_pos = 40\<rparr>,
           Blocks = [\<lparr>Index = 0,
                      Instrs = [IV (Alloc 1 ''[]int'' True),
                                IV (Call 2 (OtherValue ''*ssa.Builtin'')
                                      [InstrVal (Alloc 1 ''[]int'' True)]),
                                Return []]\<rparr>]\<rparr>"

definition pkgL :: ssa_Package where
  "pkgL = \<lparr>pkg_name = ''main'', pkg_path = ''main'',
           Members = [(''L'', MFunction fLen), (''B'', MFunction fB)]\<rparr>"

definition fPhi :: ssa_Function where
  "fPhi = \<lparr>info = \<lparr>fn_name = ''Q'', fn_pkgPath = ''main'', fn_Signature = sig0,
                    fn_Params = [], fn_typeparams = None, fn_pos = 40\<rparr>,
           Blocks = [\<lparr>Index = 0,
                      Instrs = [IV (BinOp 1 ''+'' (Const (Some ''1'') ''int'')
                                      (InstrVal (OtherIV 2 ''*ssa.Phi''))),
                                Return []]\<rparr>]\<rparr>"

definition pkgPhi :: ssa_Package where
  "pkgPhi = \<lparr>pkg_name = ''main'', pkg_path = ''main'',
             Members = [(''Q'', MFunction fPhi)]\<rparr>"

definition pkgTP :: ssa_Package where
  "pkgTP = \<lparr>pkg_name = ''main'', pkg_path = ''main'',
            Members = [(''P'', MFunction fPanic), (''T'', MType ''T'' 50)]\<rparr>"

section \<open>What lowering leaves unchanged\<close>

lemma frame_refl: "frame s s"
  by (simp add: frame_def)

lemma frame_trans:
  assumes "frame s s1" and "frame s1 s2"
  shows "frame s s2"
proof -
  have "prefix (opsAt s bb) (opsAt s2 bb)" for bb
    using assms unfolding frame_def by (meson prefix_order.trans)
  moreover have "opsAt s2 bb = opsAt s bb" if "b_blk s \<noteq> Some bb" for bb
    using assms that unfolding frame_def by metis
  ultimately show ?thesis
    using assms unfolding frame_def by simp
qed

lemma grows_refl: "grows n s s"
  by (simp add: grows_def)

lemma grows_trans: "grows n s s1 \<Longrightarrow> grows m s1 s2 \<Longrightarrow> n \<le> k \<Longrightarrow> m \<le> k \<Longrightarrow> grows k s s2"
  unfolding grows_def
  by (metis (no_types, lifting) less_le_trans)

lemma grows_mono: "grows n s s' \<Longrightarrow> n \<le> m \<Longrightarrow> grows m s s'"
  unfolding grows_def by (meson less_le_trans)

lemma emit_frame:
  assumes "emit ope s = Inr (e, s')"
  shows "frame s s' \<and> bvals s' = bvals s"
proof -
  from assms obtain h i where bb: "b_blk s = Some (h, i)"
    and h: "h < length (p_fns (pkg s))" and i: "i < length (f_blks (p_fns (pkg s) ! h))"
    and s': "s' = s\<lparr>pkg := (pkg s)\<lparr>p_fns :=
              (p_fns (pkg s))[h := (p_fns (pkg s) ! h)\<lparr>f_blks :=
                 (f_blks (p_fns (pkg s) ! h))[i := f_blks (p_fns (pkg s) ! h) ! i @ [ope]]\<rparr>]\<rparr>\<rparr>"
    by (auto simp: emit_def Let_def split: option.splits if_splits prod.splits)
  have names: "map f_name (p_fns (pkg s')) = map f_name (p_fns (pkg s))"
    using h by (simp add: s' map_update list_update_same_conv)
  have sigs: "map f_sig (p_fns (pkg s')) = map f_sig (p_fns (pkg s))"
    using h by (simp add: s' map_update list_update_same_conv)
  have lens: "map (\<lambda>f. length (f_blks f)) (p_fns (pkg s')) = map (\<lambda>f. length (f_blks f)) (p_fns (pkg s))"
    using h by (simp add: s' map_update list_update_same_conv)
  have ops: "opsAt s' bb = (if bb = (h, i) then opsAt s bb @ [ope] else opsAt s bb)" for bb
    using h i by (cases bb) (auto simp: s' opsAt_def nth_list_update)
  show ?thesis
    unfolding frame_def using names sigs lens bb
    by (auto simp: ops) (simp_all add: s')
qed

lemma emit_ops:
  assumes "emit ope s = Inr (e, s')" "b_blk s = Some bb"
  shows "opsAt s' bb = opsAt s bb @ [ope]"
  using assms
  by (cases bb) (auto simp: emit_def Let_def opsAt_def split: option.splits if_splits prod.splits)


declare compileInstrAndValue.simps [simp del] compileValue.simps [simp del] compileValues.simps [simp del]

lemma cacheRet_Inr:
  "cacheRet iv r = Inr (e, s') \<Longrightarrow> \<exists>s1. r = Inr (e, s1) \<and> s' = s1\<lparr>bvals := (bvals s1)(iv \<mapsto> e)\<rparr>"
  by (auto simp: cacheRet_def split: sum.splits prod.splits)

lemma frame_bvals_upd: "frame s (s1\<lparr>bvals := m\<rparr>) = frame s s1"
  by (simp add: frame_def opsAt_def)

lemma cache_step:
  assumes no: "\<not> isOther iv" and miss: "bvals s iv = None" and f: "frame s s2" and g: "grows m s s2" and m: "m \<le> size iv"
    and em: "emit ope s2 = Inr (e, s3)"
  shows "frame s (s3\<lparr>bvals := (bvals s3)(iv \<mapsto> e)\<rparr>)
         \<and> grows (Suc (size iv)) s (s3\<lparr>bvals := (bvals s3)(iv \<mapsto> e)\<rparr>)"
proof -
  from emit_frame [OF em] have f3: "frame s2 s3" and b3: "bvals s3 = bvals s2" by simp_all
  have "frame s s3" using f f3 by (rule frame_trans)
  moreover have "grows (Suc (size iv)) s (s3\<lparr>bvals := (bvals s3)(iv \<mapsto> e)\<rparr>)"
    unfolding grows_def
  proof
    fix k
    show "bvals (s3\<lparr>bvals := (bvals s3)(iv \<mapsto> e)\<rparr>) k = bvals s k
          \<or> (bvals s k = None \<and> size k < Suc (size iv) \<and> \<not> isOther k)"
    proof (cases "k = iv")
      case True then show ?thesis using miss no by simp
    next
      case False
      from g have "bvals s2 k = bvals s k \<or> (bvals s k = None \<and> size k < m \<and> \<not> isOther k)"
        unfolding grows_def by blast
      then show ?thesis using False m b3 by auto
    qed
  qed
  ultimately show ?thesis by (simp add: frame_bvals_upd)
qed

lemma compile_within:
  "\<forall>e s'. compileInstrAndValue ext iv s = Inr (e, s') \<longrightarrow> frame s s' \<and> grows (Suc (size iv)) s s'"
  "\<forall>e s'. compileValue ext v s = Inr (e, s') \<longrightarrow> frame s s' \<and> grows (size v) s s'"
  "\<forall>es s'. compileValues ext vals hv s = Inr (es, s') \<longrightarrow> frame s s' \<and> grows (size_list size vals) s s'"
  "\<forall>es s'. compileValuesLoop ext vs k s = Inr (es, s') \<longrightarrow> frame s s' \<and> grows (size_list size vs) s s'"
proof (induction ext iv s and ext v s and ext vals hv s and ext vs k s
       rule: compileInstrAndValue_compileValue_compileValues_compileValuesLoop.induct)
  case (1 ext iv s)
  show ?case
  proof (intro allI impI)
    fix e s' assume A: "compileInstrAndValue ext iv s = Inr (e, s')"
    show "frame s s' \<and> grows (Suc (size iv)) s s'"
    proof (cases "bvals s iv")
      case (Some v)
      with A have "s' = s" by (simp add: compileInstrAndValue.simps)
      then show ?thesis by (simp add: frame_refl grows_refl)
    next
      case None
      show ?thesis
      proof (cases iv)
        case (Call a callee args)
        show ?thesis
        proof (cases "funcKind ext callee = fnUnsafeInit")
          case True
          with A None Call have "s' = s" by (simp add: compileInstrAndValue.simps)
          then show ?thesis by (simp add: frame_refl grows_refl)
        next
          case False
          from A None Call False obtain fnE s1 argEs s2 s3 where
            c1: "compileValue ext callee s = Inr (fnE, s1)" and
            c2: "compileValues ext args (funcKind ext callee) s1 = Inr (argEs, s2)" and
            c3: "emit (Op_Call fnE argEs) s2 = Inr (e, s3)" and
            s': "s' = s3\<lparr>bvals := (bvals s3)(iv \<mapsto> e)\<rparr>"
            by (auto simp: compileInstrAndValue.simps dest!: cacheRet_Inr split: sum.splits prod.splits)
          from "1.IH"(1) [OF None Call False] c1
          have i1: "frame s s1" "grows (size callee) s s1" by auto
          from "1.IH"(2) [OF None Call False c1 refl] c2
          have i2: "frame s1 s2" "grows (size_list size args) s1 s2" by auto
          have "frame s s2" using i1(1) i2(1) by (rule frame_trans)
          moreover have "grows (size iv) s s2"
            using i1(2) i2(2) by (rule grows_trans) (simp_all add: Call)
          ultimately show ?thesis unfolding s' using cache_step [OF _ None _ _ _ c3] by (auto simp add: Call)
        qed
      next
        case (BinOp a ope X Y)
        from A None BinOp obtain x s1 y s2 s3 where
          c1: "compileValue ext X s = Inr (x, s1)" and
          c2: "compileValue ext Y s1 = Inr (y, s2)" and
          c3: "emit (Op_BinOp ope x y) s2 = Inr (e, s3)" and
          s': "s' = s3\<lparr>bvals := (bvals s3)(iv \<mapsto> e)\<rparr>"
          by (auto simp: compileInstrAndValue.simps dest!: cacheRet_Inr split: sum.splits prod.splits)
        from "1.IH"(3) [OF None BinOp] c1
        have i1: "frame s s1" "grows (size X) s s1" by auto
        from "1.IH"(4) [OF None BinOp c1 refl] c2
        have i2: "frame s1 s2" "grows (size Y) s1 s2" by auto
        have "frame s s2" using i1(1) i2(1) by (rule frame_trans)
        moreover have "grows (size iv) s s2"
          using i1(2) i2(2) by (rule grows_trans) (simp_all add: BinOp)
        ultimately show ?thesis unfolding s' using cache_step [OF _ None _ _ _ c3] by (auto simp add: BinOp)
      next
        case (UnOp a ope X)
        from A None UnOp obtain x s1 s3 where
          c1: "compileValue ext X s = Inr (x, s1)" and
          c3: "emit (Op_UnOp ope x) s1 = Inr (e, s3)" and
          s': "s' = s3\<lparr>bvals := (bvals s3)(iv \<mapsto> e)\<rparr>"
          by (auto simp: compileInstrAndValue.simps dest!: cacheRet_Inr split: sum.splits prod.splits)
        from "1.IH"(5) [OF None UnOp] c1
        have i1: "frame s s1" "grows (size X) s s1" by auto
        have "grows (size iv) s s1"
          using i1(2) by (rule grows_mono) (simp add: UnOp)
        then show ?thesis unfolding s' using cache_step [OF _ None i1(1) _ _ c3] by (auto simp add: UnOp)
      next
        case (IndexAddr a X Idx)
        from A None IndexAddr obtain x s1 y s2 s3 where
          c1: "compileValue ext X s = Inr (x, s1)" and
          c2: "compileValue ext Idx s1 = Inr (y, s2)" and
          c3: "emit (Op_IndexAddr x y) s2 = Inr (e, s3)" and
          s': "s' = s3\<lparr>bvals := (bvals s3)(iv \<mapsto> e)\<rparr>"
          by (auto simp: compileInstrAndValue.simps dest!: cacheRet_Inr split: sum.splits prod.splits)
        from "1.IH"(6) [OF None IndexAddr] c1
        have i1: "frame s s1" "grows (size X) s s1" by auto
        from "1.IH"(7) [OF None IndexAddr c1 refl] c2
        have i2: "frame s1 s2" "grows (size Idx) s1 s2" by auto
        have "frame s s2" using i1(1) i2(1) by (rule frame_trans)
        moreover have "grows (size iv) s s2"
          using i1(2) i2(2) by (rule grows_trans) (simp_all add: IndexAddr)
        ultimately show ?thesis unfolding s' using cache_step [OF _ None _ _ _ c3] by (auto simp add: IndexAddr)
      next
        case (Alloc a t heap)
        from A None Alloc obtain s3 where
          c3: "emit (Op_Alloc (progType ext t) heap) s = Inr (e, s3)" and
          s': "s' = s3\<lparr>bvals := (bvals s3)(iv \<mapsto> e)\<rparr>"
          by (auto simp: compileInstrAndValue.simps dest!: cacheRet_Inr split: sum.splits prod.splits)
        show ?thesis unfolding s'
          using cache_step [OF _ None frame_refl grows_refl _ c3, of 0] by (auto simp add: Alloc)
      next
        case (OtherIV a k)
        with A None show ?thesis by (simp add: compileInstrAndValue.simps)
      qed
    qed
  qed
next
  case (2 ext v s)
  show ?case
  proof (cases v)
    case (InstrVal iv)
    from "2.IH" [OF InstrVal] show ?thesis
      by (auto simp: compileValue.simps InstrVal intro: grows_mono)
  qed (auto simp: compileValue.simps fnParam_def funcOf_def varOf_def frame_refl grows_refl
            split: option.splits sum.splits)
next
  case (3 ext vals hv s)
  show ?case
  proof (cases "int (length vals) - hv < 0")
    case True then show ?thesis by (simp add: compileValues.simps)
  next
    case False
    from "3.IH" [OF refl False] show ?thesis
      using False by (auto simp: compileValues.simps Let_def split: sum.splits prod.splits if_splits)
  qed
next
  case (4 ext vs s)
  show ?case by (simp add: frame_refl grows_refl)
next
  case (5 ext k s)
  show ?case by simp
next
  case (6 ext v vs k s)
  show ?case
  proof (intro allI impI)
    fix es s' assume A: "compileValuesLoop ext (v # vs) (Suc k) s = Inr (es, s')"
    then obtain x s1 xs where
      c1: "compileValue ext v s = Inr (x, s1)" and
      c2: "compileValuesLoop ext vs k s1 = Inr (xs, s')"
      by (auto split: sum.splits prod.splits)
    from "6.IH"(1) c1 have i1: "frame s s1" "grows (size v) s s1" by auto
    from "6.IH"(2) [OF c1 refl] c2 have i2: "frame s1 s'" "grows (size_list size vs) s1 s'" by auto
    have "frame s s'" using i1(1) i2(1) by (rule frame_trans)
    moreover have "grows (size_list size (v # vs)) s s'"
      using i1(2) i2(2) by (rule grows_trans) simp_all
    ultimately show "frame s s' \<and> grows (size_list size (v # vs)) s s'" ..
  qed
qed

section \<open>Properties of the function classifier\<close>

text \<open>
  C5. The classifier returns one of three distinct kinds. It returns UnsafeNoOpInit
  exactly for a function without receiver and without parameters that is named
  \<open>init\<close> and belongs to package \<open>unsafe\<close>; it returns HasTrailingVariadic exactly
  for a function without receiver whose last declared parameter has the reserved name;
  a method and a value that is not a function are Normal.
\<close>

theorem funcKind_classifies:
  "funcKind ext v \<in> {fnNormal, fnHasVArg, fnUnsafeInit}
   \<and> (funcKind ext v = fnUnsafeInit \<longleftrightarrow>
        (\<exists>f. v = Function f \<and> sig_recv (fn_Signature f) = None
           \<and> sig_params (fn_Signature f) = []
           \<and> fn_name f = ''init'' \<and> fn_pkgPath f = ''unsafe''))
   \<and> (funcKind ext v = fnHasVArg \<longleftrightarrow>
        (\<exists>f. v = Function f \<and> sig_recv (fn_Signature f) = None
           \<and> sig_params (fn_Signature f) \<noteq> []
           \<and> var_name (last (sig_params (fn_Signature f))) = NameValist ext))
   \<and> (sig_recv (fn_Signature g) \<noteq> None \<longrightarrow> funcKind ext (Function g) = fnNormal)
   \<and> ((\<forall>f. v \<noteq> Function f) \<longrightarrow> funcKind ext v = fnNormal)
   \<and> fnNormal \<noteq> fnHasVArg \<and> fnNormal \<noteq> fnUnsafeInit \<and> fnHasVArg \<noteq> fnUnsafeInit"
  by (cases v)
     (auto simp: funcKind_def fnNormal_def fnHasVArg_def fnUnsafeInit_def Let_def last_conv_nth)

theorem funcKind_classifies_witness:
  "funcKind ext0 (Function unsafe_init) = fnUnsafeInit
   \<and> funcKind ext0 (Function printf) = fnHasVArg
   \<and> sig_recv (fn_Signature method0) \<noteq> None
   \<and> funcKind ext0 (Function method0) = fnNormal
   \<and> funcKind ext0 (OtherValue ''*ssa.Builtin'') = fnNormal"
  using funcKind_classifies [of ext0 "Function unsafe_init" method0]
        funcKind_classifies [of ext0 "Function printf" method0]
        funcKind_classifies [of ext0 "OtherValue ''*ssa.Builtin''" method0]
  by (simp add: ext0_def unsafe_init_def printf_def method0_def sig0_def)

lemma keeps_refl: "keeps s s"
  unfolding keeps_def using frame_refl grows_refl by blast

lemma keeps_trans: "keeps s s1 \<Longrightarrow> keeps s1 s2 \<Longrightarrow> keeps s s2"
  unfolding keeps_def
  by (meson frame_trans grows_trans max.cobounded1 max.cobounded2)

lemma keepsI: "frame s s' \<Longrightarrow> grows n s s' \<Longrightarrow> keeps s s'"
  unfolding keeps_def by blast

lemma keeps_cached: "keeps s s' \<Longrightarrow> bvals s k = Some v \<Longrightarrow> bvals s' k = Some v"
  unfolding keeps_def grows_def by (metis option.distinct(1))

lemma keeps_noOther: "keeps s s' \<Longrightarrow> isOther k \<Longrightarrow> bvals s k = None \<Longrightarrow> bvals s' k = None"
  unfolding keeps_def grows_def by metis

lemma emit_keeps: "emit ope s = Inr (e, s') \<Longrightarrow> keeps s s'"
  using emit_frame [of ope s e s'] by (auto simp: keeps_def grows_def)

lemma compileInstrAndValue_keeps: "compileInstrAndValue ext iv s = Inr (e, s') \<Longrightarrow> keeps s s'"
  using compile_within(1) keepsI by blast

lemma compileValue_keeps: "compileValue ext v s = Inr (e, s') \<Longrightarrow> keeps s s'"
  using compile_within(2) keepsI by blast

lemma compileValues_keeps: "compileValues ext vs hv s = Inr (es, s') \<Longrightarrow> keeps s s'"
  using compile_within(3) keepsI by blast

lemma compileValuesLoop_keeps: "compileValuesLoop ext vs k s = Inr (es, s') \<Longrightarrow> keeps s s'"
  using compile_within(4) keepsI by blast

lemma compileInstr_keeps: "compileInstr ext instr s = Inr s' \<Longrightarrow> keeps s s'"
proof (cases instr)
  case (IV iv)
  assume "compileInstr ext instr s = Inr s'"
  with IV show ?thesis
    by (auto split: sum.splits prod.splits dest: compileInstrAndValue_keeps)
next
  case (Store Addr Val)
  assume "compileInstr ext instr s = Inr s'"
  with Store obtain ptr s1 val s2 r where
    "compileValue ext Addr s = Inr (ptr, s1)" "compileValue ext Val s1 = Inr (val, s2)"
    "emit (Op_Store ptr val) s2 = Inr (r, s')"
    by (auto split: sum.splits prod.splits)
  then show ?thesis
    by (meson compileValue_keeps emit_keeps keeps_trans)
next
  case (Jump succs)
  assume "compileInstr ext instr s = Inr s'"
  with Jump show ?thesis
    by (auto split: sum.splits prod.splits if_splits dest: emit_keeps)
next
  case (Return Results)
  assume "compileInstr ext instr s = Inr s'"
  with Return obtain results s1 r where
    "compileValuesLoop ext Results (length Results) s = Inr (results, s1)"
    "emit (Op_Return results) s1 = Inr (r, s')"
    by (auto split: sum.splits prod.splits)
  then show ?thesis
    by (meson compileValuesLoop_keeps emit_keeps keeps_trans)
next
  case (IfInstr Cond succs)
  assume "compileInstr ext instr s = Inr s'"
  with IfInstr obtain cond s1 thenb elseb r where
    "compileValue ext Cond s = Inr (cond, s1)"
    "emit (Op_If cond thenb elseb) s1 = Inr (r, s')"
    by (auto split: sum.splits prod.splits if_splits)
  then show ?thesis
    by (meson compileValue_keeps emit_keeps keeps_trans)
next
  case (OtherInstr k)
  assume "compileInstr ext instr s = Inr s'"
  with OtherInstr show ?thesis by simp
qed

lemma compileInstrs_keeps: "compileInstrs ext instrs s = Inr s' \<Longrightarrow> keeps s s'"
proof (induction instrs arbitrary: s)
  case Nil
  then show ?case by (simp add: keeps_refl)
next
  case (Cons instr rest)
  then obtain s1 where "compileInstr ext instr s = Inr s1" "compileInstrs ext rest s1 = Inr s'"
    by (auto split: sum.splits)
  then show ?case using Cons.IH compileInstr_keeps keeps_trans by blast
qed

lemma compileInstrAndValue_cached:
  "bvals s iv = Some v \<Longrightarrow> compileInstrAndValue ext iv s = Inr (v, s)"
  by (simp add: compileInstrAndValue.simps)

lemma compileInstrAndValue_caches:
  assumes "compileInstrAndValue ext iv s = Inr (e, s')"
  shows "bvals s' iv = Some e \<or> (s' = s \<and> e = ExprZero \<and> bvals s iv = None
            \<and> (\<exists>a callee args. iv = Call a callee args \<and> funcKind ext callee = fnUnsafeInit))"
proof (cases "bvals s iv")
  case (Some v)
  with assms show ?thesis by (simp add: compileInstrAndValue.simps)
next
  case None
  with assms show ?thesis
    by (cases iv)
       (auto simp: compileInstrAndValue.simps dest!: cacheRet_Inr split: if_splits)
qed

lemma compileInstrAndValue_again:
  assumes "compileInstrAndValue ext iv s = Inr (e, s')"
  shows "compileInstrAndValue ext iv s' = Inr (e, s')"
  using compileInstrAndValue_caches [OF assms] assms
  by (auto simp: compileInstrAndValue_cached)

lemma compileBlock_fresh_cache:
  "compileBlock ext block doInit (s\<lparr>bvals := m\<rparr>) = compileBlock ext block doInit s"
  by (simp add: compileBlock_def fnBlock_def Let_def split: option.splits sum.splits)

lemmas eval_simps =
  compileInstrAndValue.simps compileValue.simps compileValues.simps
  emit_def cacheRet_def fnBlock_def fnParam_def funcOf_def varOf_def compileVArg_def
  funcKind_def fnNormal_def fnHasVArg_def fnUnsafeInit_def Let_def opsAt_def

section \<open>Argument lists\<close>

lemma compileValuesLoop_prefix:
  "compileValuesLoop ext (pre @ rest) (length pre) s = lowerInOrder ext pre s"
  by (induction pre arbitrary: s) (auto split: sum.splits prod.splits)

lemma lowerInOrder_length:
  "lowerInOrder ext vs s = Inr (es, s') \<Longrightarrow> length es = length vs"
  by (induction vs arbitrary: s es) (auto split: sum.splits prod.splits)

lemma compileValues_fnNormal:
  "compileValues ext vals fnNormal s = lowerInOrder ext vals s"
  using compileValuesLoop_prefix [of ext vals "[]" s]
  by (auto simp: compileValues.simps fnNormal_def Let_def split: sum.splits prod.splits)

lemma compileValues_fnHasVArg:
  "compileValues ext (pre @ [v]) fnHasVArg s =
     (case lowerInOrder ext pre s of
        Inl e \<Rightarrow> Inl e
      | Inr (ret, s1) \<Rightarrow>
         (case compileVArg ret v of Inl e \<Rightarrow> Inl e | Inr ret' \<Rightarrow> Inr (ret', s1)))"
  by (auto simp: compileValues.simps fnHasVArg_def compileValuesLoop_prefix Let_def nat_diff_distrib
           split: sum.splits prod.splits)

lemma compileVArg_absent: "compileVArg ret (Const None t) = Inr ret"
  by (simp add: compileVArg_def)

lemma compileVArg_todo: "(\<forall>t. v \<noteq> Const None t) \<Longrightarrow> compileVArg ret v = Inl Todo"
  by (cases v) (auto simp: compileVArg_def)

lemma keeps_b_blk: "keeps s s' \<Longrightarrow> b_blk s' = b_blk s"
  by (simp add: keeps_def frame_def)

text \<open>
  C4. For a callee classified HasTrailingVariadic whose trailing argument is a constant
  without value, the argument list of the call is exactly the lowered prefix (as many
  expressions as the prefix has values, nothing added), and that list is the argument
  list of the call operation emitted. Any other trailing argument makes the lowering
  fail: with the panic of the prefix if the prefix fails, with \<open>todo\<close> otherwise.
\<close>

theorem variadic_absent_case:
  "compileValues ext (pre @ [Const None t]) fnHasVArg s = lowerInOrder ext pre s
   \<and> (lowerInOrder ext pre s = Inr (es, s1) \<longrightarrow> length es = length pre)
   \<and> ((\<forall>t. v \<noteq> Const None t) \<longrightarrow>
        compileValues ext (pre @ [v]) fnHasVArg s =
          (case lowerInOrder ext pre s of Inl e \<Rightarrow> Inl e | Inr r \<Rightarrow> Inl Todo))
   \<and> (funcKind ext callee = fnHasVArg \<and> b_blk s = Some bb
        \<and> bvals s (Call a callee (pre @ [Const None t])) = None
        \<and> compileInstrAndValue ext (Call a callee (pre @ [Const None t])) s = Inr (e, s') \<longrightarrow>
        (\<exists>fnE sa args sb. compileValue ext callee s = Inr (fnE, sa)
           \<and> lowerInOrder ext pre sa = Inr (args, sb)
           \<and> length args = length pre
           \<and> opsAt s' bb = opsAt sb bb @ [Op_Call fnE args]))"
proof (intro conjI impI)
  show "compileValues ext (pre @ [Const None t]) fnHasVArg s = lowerInOrder ext pre s"
    by (simp add: compileValues_fnHasVArg compileVArg_absent split: sum.splits prod.splits)
next
  assume "lowerInOrder ext pre s = Inr (es, s1)"
  then show "length es = length pre" by (rule lowerInOrder_length)
next
  assume "\<forall>t. v \<noteq> Const None t"
  then show "compileValues ext (pre @ [v]) fnHasVArg s =
          (case lowerInOrder ext pre s of Inl e \<Rightarrow> Inl e | Inr r \<Rightarrow> Inl Todo)"
    by (simp add: compileValues_fnHasVArg compileVArg_todo split: sum.splits prod.splits)
next
  let ?iv = "Call a callee (pre @ [Const None t])"
  assume A: "funcKind ext callee = fnHasVArg \<and> b_blk s = Some bb
        \<and> bvals s ?iv = None \<and> compileInstrAndValue ext ?iv s = Inr (e, s')"
  then have ne: "funcKind ext callee \<noteq> fnUnsafeInit"
    by (simp add: fnHasVArg_def fnUnsafeInit_def)
  from A ne obtain fnE sa args sb s3 where
    c1: "compileValue ext callee s = Inr (fnE, sa)" and
    c2: "compileValues ext (pre @ [Const None t]) fnHasVArg sa = Inr (args, sb)" and
    c3: "emit (Op_Call fnE args) sb = Inr (e, s3)" and
    s': "s' = s3\<lparr>bvals := (bvals s3)(?iv \<mapsto> e)\<rparr>"
    by (auto simp: compileInstrAndValue.simps dest!: cacheRet_Inr split: sum.splits prod.splits)
  from c2 have l: "lowerInOrder ext pre sa = Inr (args, sb)"
    by (simp add: compileValues_fnHasVArg compileVArg_absent split: sum.splits prod.splits)
  have "b_blk sb = Some bb"
    using A c1 c2 compileValue_keeps compileValues_keeps keeps_b_blk by metis
  from emit_ops [OF c3 this] have "opsAt s' bb = opsAt sb bb @ [Op_Call fnE args]"
    by (simp add: s' opsAt_def)
  with c1 l lowerInOrder_length [OF l]
  show "\<exists>fnE sa args sb. compileValue ext callee s = Inr (fnE, sa)
           \<and> lowerInOrder ext pre sa = Inr (args, sb)
           \<and> length args = length pre
           \<and> opsAt s' bb = opsAt sb bb @ [Op_Call fnE args]"
    by blast
qed

theorem variadic_absent_case_witness:
  "funcKind ext0 (Function printf) = fnHasVArg
   \<and> (\<exists>s'. compileInstrAndValue ext0 printfCall ctxP = Inr (InstrExpr 0 0 0, s')
         \<and> opsAt s' (0, 0) = [Op_Call (FnExpr 1) [ConstExpr (Some ''hello'') ''*int8'']])
   \<and> compileValues ext0 [Const (Some ''hello'') ''*int8'', Const (Some ''x'') ''string''] fnHasVArg ctxP
       = Inl Todo"
proof -
  have k: "funcKind ext0 (Function printf) = fnHasVArg"
    by (simp add: eval_simps printf_def ext0_def)
  obtain s' where 1: "compileInstrAndValue ext0 printfCall ctxP = Inr (InstrExpr 0 0 0, s')"
    by (simp add: eval_simps printfCall_def ctxP_def printf_def ext0_def sig0_def)
  have 2: "b_blk ctxP = Some (0, 0)" "bvals ctxP printfCall = None"
    by (simp_all add: ctxP_def)
  have 3: "compileValue ext0 (Function printf) ctxP = Inr (FnExpr 1, ctxP)"
    by (simp add: eval_simps ctxP_def printf_def ext0_def)
  have 4: "lowerInOrder ext0 [Const (Some ''hello'') ''*int8''] ctxP
            = Inr ([ConstExpr (Some ''hello'') ''*int8''], ctxP)"
    by (simp add: eval_simps ext0_def)
  have 5: "opsAt ctxP (0, 0) = []" by (simp add: ctxP_def opsAt_def)
  have 6: "\<forall>t. Const (Some ''x'') ''string'' \<noteq> Const None t" by simp
  from variadic_absent_case [of ext0 "[Const (Some ''hello'') ''*int8'']" "''...any''" ctxP
         "[ConstExpr (Some ''hello'') ''*int8'']" ctxP "Const (Some ''x'') ''string''"
         "Function printf" "(0, 0)" 7 "InstrExpr 0 0 0" s']
       k 1 2 3 4 5 6
  show ?thesis by (auto simp: printfCall_def)
qed

section \<open>The length of the argument list\<close>

text \<open>
  C10. For a callee classified HasTrailingVariadic the length of the prefix is the
  number of arguments minus the tag \<open>fnHasVArg\<close>, which is 1. With no argument at all
  the slice of length -1 cannot be made and the lowering panics; with at least one
  argument the values before the last are lowered in order and the last one alone goes
  to \<open>compileVArg\<close>.
\<close>

theorem variadic_prefix_length:
  "fnHasVArg = 1
   \<and> compileValues ext [] fnHasVArg s = Inl MakeSliceLenOutOfRange
   \<and> (int (length vals) < hasVArg \<longrightarrow>
        compileValues ext vals hasVArg s = Inl MakeSliceLenOutOfRange)
   \<and> compileValues ext (pre @ [v]) fnHasVArg s =
        (case lowerInOrder ext pre s of
           Inl e \<Rightarrow> Inl e
         | Inr (ret, s1) \<Rightarrow>
            (case compileVArg ret v of Inl e \<Rightarrow> Inl e | Inr ret' \<Rightarrow> Inr (ret', s1)))
   \<and> (vals \<noteq> [] \<longrightarrow> vals = butlast vals @ [last vals]
        \<and> nat (int (length vals) - fnHasVArg) = length (butlast vals))"
proof (intro conjI impI)
  show "fnHasVArg = 1" by (simp add: fnHasVArg_def)
  show "compileValues ext [] fnHasVArg s = Inl MakeSliceLenOutOfRange"
    by (simp add: compileValues.simps fnHasVArg_def)
  show "compileValues ext (pre @ [v]) fnHasVArg s =
        (case lowerInOrder ext pre s of
           Inl e \<Rightarrow> Inl e
         | Inr (ret, s1) \<Rightarrow>
            (case compileVArg ret v of Inl e \<Rightarrow> Inl e | Inr ret' \<Rightarrow> Inr (ret', s1)))"
    by (rule compileValues_fnHasVArg)
next
  assume "int (length vals) < hasVArg"
  then show "compileValues ext vals hasVArg s = Inl MakeSliceLenOutOfRange"
    by (simp add: compileValues.simps)
next
  assume "vals \<noteq> []"
  then show "vals = butlast vals @ [last vals]" by simp
next
  assume "vals \<noteq> []"
  then show "nat (int (length vals) - fnHasVArg) = length (butlast vals)"
    by (simp add: fnHasVArg_def nat_diff_distrib)
qed

theorem variadic_prefix_length_witness:
  "compileValues ext0 [] fnHasVArg ctxP = Inl MakeSliceLenOutOfRange
   \<and> int (length ([]::ssa_Value list)) < 1
   \<and> compileValues ext0 [Const (Some ''hello'') ''*int8'', Const None ''...any''] fnHasVArg ctxP
       = Inr ([ConstExpr (Some ''hello'') ''*int8''], ctxP)
   \<and> nat (int (length [Const (Some ''hello'') ''*int8'', Const None ''...any'']) - fnHasVArg) = 1"
  using variadic_prefix_length [of ext0 ctxP "[]" 1 "[Const (Some ''hello'') ''*int8'']"
          "Const None ''...any''"]
        variadic_prefix_length [of ext0 ctxP "[Const (Some ''hello'') ''*int8'', Const None ''...any'']" 1
          "[Const (Some ''hello'') ''*int8'']" "Const None ''...any''"]
  by (simp add: eval_simps ext0_def)

section \<open>The declare loop in closed form\<close>

lemma compileFunc_eq:
  "compileFunc ext f s =
     s\<lparr>pkg := (pkg s)\<lparr>p_fns := p_fns (pkg s) @
                 [\<lparr>f_name = declName ext f, f_sig = fn_Signature (info f), f_blks = []\<rparr>],
               p_fnIdx := (p_fnIdx (pkg s))(declName ext f \<mapsto> length (p_fns (pkg s)))\<rparr>,
       inits := inits s @ [\<lparr>c_name = declName ext f, c_fn = length (p_fns (pkg s)), c_f = f\<rparr>]\<rparr>"
  by (simp add: compileFunc_def NewFunc_def declName_def Let_def)

lemma compileGlobal_eq:
  "compileGlobal ext g s =
     s\<lparr>pkg := (pkg s)\<lparr>p_vars := p_vars (pkg s) @
                 [\<lparr>v_name = globalName ext g, v_type = progType ext (g_type g),
                   v_init = Some (NullExpr (progType ext (g_type g)))\<rparr>],
               p_varIdx := (p_varIdx (pkg s))(globalName ext g \<mapsto> length (p_vars (pkg s)))\<rparr>\<rparr>"
  by (simp add: compileGlobal_def NewVar_def InitVar_def globalName_def Let_def)

lemma compileGlobal_compileFunc_commute:
  "compileGlobal ext g (compileFunc ext f s) = compileFunc ext f (compileGlobal ext g s)"
  by (simp add: compileGlobal_eq compileFunc_eq)

lemma declFuncs_compileGlobal:
  "declFuncs ext fs (compileGlobal ext g s) = compileGlobal ext g (declFuncs ext fs s)"
  unfolding declFuncs_def
  by (induction fs arbitrary: s) (simp_all add: compileGlobal_compileFunc_commute [symmetric])

lemma declGlobals_Cons:
  "declGlobals ext (g # gs) s = declGlobals ext gs (compileGlobal ext g s)"
  by (simp add: declGlobals_def)

lemma declFuncs_Cons:
  "declFuncs ext (f # fs) s = declFuncs ext fs (compileFunc ext f s)"
  by (simp add: declFuncs_def)

lemma declareMembers_closed:
  "declareMembers ext ms s =
     (if \<exists>m \<in> set ms. isType m then Inl Todo
      else Inr (declGlobals ext (globalsOf ms) (declFuncs ext (nonGenericFuncs ms) s)))"
proof (induction ms arbitrary: s)
  case Nil
  show ?case by (simp add: declGlobals_def declFuncs_def)
next
  case (Cons m ms)
  show ?case
  proof (cases m)
    case (MFunction f)
    then show ?thesis using Cons.IH by (simp add: declFuncs_Cons)
  next
    case (MType n p)
    then show ?thesis by (simp add: compileType_def)
  next
    case (MGlobal g)
    then show ?thesis using Cons.IH
      by (simp add: declGlobals_Cons declFuncs_compileGlobal)
  next
    case (MNamedConst n p)
    then show ?thesis using Cons.IH by simp
  qed
qed

lemma declFuncs_fields:
  "p_fns (pkg (declFuncs ext fs s)) =
     p_fns (pkg s) @ map (\<lambda>f. \<lparr>f_name = declName ext f, f_sig = fn_Signature (info f), f_blks = []\<rparr>) fs
   \<and> inits (declFuncs ext fs s) =
     inits s @ map (\<lambda>(i, f). \<lparr>c_name = declName ext f, c_fn = i, c_f = f\<rparr>)
                 (enumerate (length (p_fns (pkg s))) fs)
   \<and> p_vars (pkg (declFuncs ext fs s)) = p_vars (pkg s)
   \<and> p_varIdx (pkg (declFuncs ext fs s)) = p_varIdx (pkg s)
   \<and> p_name (pkg (declFuncs ext fs s)) = p_name (pkg s)
   \<and> p_path (pkg (declFuncs ext fs s)) = p_path (pkg s)
   \<and> fn (declFuncs ext fs s) = fn s \<and> bvals (declFuncs ext fs s) = bvals s
   \<and> b_blk (declFuncs ext fs s) = b_blk s"
proof (induction fs arbitrary: s)
  case Nil
  show ?case by (simp add: declFuncs_def)
next
  case (Cons f fs)
  show ?case
    unfolding declFuncs_Cons
    by (simp add: Cons.IH) (simp add: compileFunc_eq)
qed

lemma declGlobals_fields:
  "p_fns (pkg (declGlobals ext gs s)) = p_fns (pkg s)
   \<and> p_fnIdx (pkg (declGlobals ext gs s)) = p_fnIdx (pkg s)
   \<and> inits (declGlobals ext gs s) = inits s
   \<and> map v_name (p_vars (pkg (declGlobals ext gs s))) =
       map v_name (p_vars (pkg s)) @ map (globalName ext) gs
   \<and> p_name (pkg (declGlobals ext gs s)) = p_name (pkg s)
   \<and> p_path (pkg (declGlobals ext gs s)) = p_path (pkg s)
   \<and> fn (declGlobals ext gs s) = fn s \<and> bvals (declGlobals ext gs s) = bvals s
   \<and> b_blk (declGlobals ext gs s) = b_blk s"
proof (induction gs arbitrary: s)
  case Nil
  show ?case by (simp add: declGlobals_def)
next
  case (Cons g gs)
  show ?case
    unfolding declGlobals_Cons
    by (simp add: Cons.IH)
       (simp add: compileGlobal_eq)
qed

lemma compileFunc_regOK:
  assumes "regOK s"
  shows "regOK (compileFunc ext f s)"
    and "p_fnIdx (pkg (compileFunc ext f s)) (declName ext f) \<noteq> None"
    and "dom (p_fnIdx (pkg s)) \<subseteq> dom (p_fnIdx (pkg (compileFunc ext f s)))"
proof -
  show "regOK (compileFunc ext f s)"
    unfolding regOK_def
  proof (intro conjI allI impI)
    fix n h assume "p_fnIdx (pkg (compileFunc ext f s)) n = Some h"
    then have "(n = declName ext f \<and> h = length (p_fns (pkg s))) \<or> p_fnIdx (pkg s) n = Some h"
      by (simp add: compileFunc_eq split: if_splits)
    then have "(n = declName ext f \<and> h = length (p_fns (pkg s)))
               \<or> (h < length (p_fns (pkg s)) \<and> f_name (p_fns (pkg s) ! h) = n)"
      using assms unfolding regOK_def by blast
    then show "h < length (p_fns (pkg (compileFunc ext f s)))"
      and "f_name (p_fns (pkg (compileFunc ext f s)) ! h) = n"
      by (auto simp: compileFunc_eq nth_append)
  next
    fix n h assume "p_varIdx (pkg (compileFunc ext f s)) n = Some h"
    then have "p_varIdx (pkg s) n = Some h" by (simp add: compileFunc_eq)
    then have "h < length (p_vars (pkg s)) \<and> v_name (p_vars (pkg s) ! h) = n"
      using assms unfolding regOK_def by blast
    then show "h < length (p_vars (pkg (compileFunc ext f s)))"
      and "v_name (p_vars (pkg (compileFunc ext f s)) ! h) = n"
      by (simp_all add: compileFunc_eq)
  qed
  show "p_fnIdx (pkg (compileFunc ext f s)) (declName ext f) \<noteq> None"
    by (simp add: compileFunc_eq)
  show "dom (p_fnIdx (pkg s)) \<subseteq> dom (p_fnIdx (pkg (compileFunc ext f s)))"
    by (auto simp: compileFunc_eq)
qed

lemma compileGlobal_regOK:
  assumes "regOK s"
  shows "regOK (compileGlobal ext g s)"
    and "p_varIdx (pkg (compileGlobal ext g s)) (globalName ext g) \<noteq> None"
    and "dom (p_varIdx (pkg s)) \<subseteq> dom (p_varIdx (pkg (compileGlobal ext g s)))"
proof -
  show "regOK (compileGlobal ext g s)"
    unfolding regOK_def
  proof (intro conjI allI impI)
    fix n h assume "p_varIdx (pkg (compileGlobal ext g s)) n = Some h"
    then have "(n = globalName ext g \<and> h = length (p_vars (pkg s))) \<or> p_varIdx (pkg s) n = Some h"
      by (simp add: compileGlobal_eq split: if_splits)
    then have "(n = globalName ext g \<and> h = length (p_vars (pkg s)))
               \<or> (h < length (p_vars (pkg s)) \<and> v_name (p_vars (pkg s) ! h) = n)"
      using assms unfolding regOK_def by blast
    then show "h < length (p_vars (pkg (compileGlobal ext g s)))"
      and "v_name (p_vars (pkg (compileGlobal ext g s)) ! h) = n"
      by (auto simp: compileGlobal_eq nth_append)
  next
    fix n h assume "p_fnIdx (pkg (compileGlobal ext g s)) n = Some h"
    then have "p_fnIdx (pkg s) n = Some h" by (simp add: compileGlobal_eq)
    then have "h < length (p_fns (pkg s)) \<and> f_name (p_fns (pkg s) ! h) = n"
      using assms unfolding regOK_def by blast
    then show "h < length (p_fns (pkg (compileGlobal ext g s)))"
      and "f_name (p_fns (pkg (compileGlobal ext g s)) ! h) = n"
      by (simp_all add: compileGlobal_eq)
  qed
  show "p_varIdx (pkg (compileGlobal ext g s)) (globalName ext g) \<noteq> None"
    by (simp add: compileGlobal_eq)
  show "dom (p_varIdx (pkg s)) \<subseteq> dom (p_varIdx (pkg (compileGlobal ext g s)))"
    by (auto simp: compileGlobal_eq)
qed

lemma declFuncs_regOK:
  "regOK s \<Longrightarrow> regOK (declFuncs ext fs s)
     \<and> dom (p_fnIdx (pkg s)) \<subseteq> dom (p_fnIdx (pkg (declFuncs ext fs s)))
     \<and> (\<forall>f \<in> set fs. declName ext f \<in> dom (p_fnIdx (pkg (declFuncs ext fs s))))"
proof (induction fs arbitrary: s)
  case Nil
  then show ?case by (simp add: declFuncs_def)
next
  case (Cons f fs)
  from Cons.IH [OF compileFunc_regOK(1) [OF Cons.prems, of ext f]]
       compileFunc_regOK(2,3) [OF Cons.prems, of ext f]
  show ?case unfolding declFuncs_Cons by (auto simp: domIff subset_iff)
qed

lemma declGlobals_regOK:
  "regOK s \<Longrightarrow> regOK (declGlobals ext gs s)
     \<and> dom (p_varIdx (pkg s)) \<subseteq> dom (p_varIdx (pkg (declGlobals ext gs s)))
     \<and> (\<forall>g \<in> set gs. globalName ext g \<in> dom (p_varIdx (pkg (declGlobals ext gs s))))"
proof (induction gs arbitrary: s)
  case Nil
  then show ?case by (simp add: declGlobals_def)
next
  case (Cons g gs)
  from Cons.IH [OF compileGlobal_regOK(1) [OF Cons.prems, of ext g]]
       compileGlobal_regOK(2,3) [OF Cons.prems, of ext g]
  show ?case unfolding declGlobals_Cons by (auto simp: domIff subset_iff)
qed

lemma regOK_newContext: "regOK (newContext spkg)"
  by (simp add: regOK_def newContext_def)

section \<open>The build phase leaves the declarations as they are\<close>

lemma frame_decls: "frame s s' \<Longrightarrow> decls s' = decls s"
  by (simp add: frame_def decls_def)

lemma keeps_decls: "keeps s s' \<Longrightarrow> decls s' = decls s"
  by (simp add: keeps_def frame_decls)

lemma decls_upd [simp]:
  "decls (s\<lparr>fn := x\<rparr>) = decls s"
  "decls (s\<lparr>bvals := m\<rparr>) = decls s"
  "decls (s\<lparr>b_blk := b\<rparr>) = decls s"
  by (simp_all add: decls_def)

lemma decls_MakeBlocks: "decls (s\<lparr>pkg := MakeBlocks h n (pkg s)\<rparr>) = decls s"
proof (cases "h < length (p_fns (pkg s))")
  case True
  then show ?thesis
    by (simp add: decls_def MakeBlocks_def map_update list_update_same_conv)
next
  case False
  then show ?thesis by (simp add: decls_def MakeBlocks_def list_update_beyond)
qed

lemma callInit_keeps: "callInit s = Inr s' \<Longrightarrow> keeps s s'"
  by (auto simp: callInit_def split: option.splits sum.splits prod.splits dest: emit_keeps)

lemma compileBlock_Inr:
  assumes "compileBlock ext block doInit s = Inr (ret, s')"
  shows "\<exists>s3. fnBlock (Index block) s = Inr ret
           \<and> (if doInit then callInit (s\<lparr>b_blk := Some ret, bvals := Map.empty\<rparr>)
               else Inr (s\<lparr>b_blk := Some ret, bvals := Map.empty\<rparr>)) = Inr s3
           \<and> compileInstrs ext (Instrs block) s3 = Inr s'"
  using assms
  by (auto simp: compileBlock_def Let_def split: sum.splits if_splits)

lemma compileBlock_decls:
  assumes "compileBlock ext block doInit s = Inr (ret, s')"
  shows "decls s' = decls s"
proof -
  from compileBlock_Inr [OF assms] obtain s3 where
    a: "(if doInit then callInit (s\<lparr>b_blk := Some ret, bvals := Map.empty\<rparr>)
               else Inr (s\<lparr>b_blk := Some ret, bvals := Map.empty\<rparr>)) = Inr s3"
    and b: "compileInstrs ext (Instrs block) s3 = Inr s'" by blast
  from a have "decls s3 = decls s"
    by (auto split: if_splits dest!: callInit_keeps keeps_decls)
  with compileInstrs_keeps [OF b] show ?thesis by (simp add: keeps_decls)
qed

lemma compileBlocks_decls:
  "compileBlocks ext name i blocks s = Inr s' \<Longrightarrow> decls s' = decls s"
proof (induction blocks arbitrary: i s)
  case Nil
  then show ?case by simp
next
  case (Cons block rest)
  then obtain ret s1 where
    "compileBlock ext block (i = 0 \<and> name = ''main'') s = Inr (ret, s1)"
    "compileBlocks ext name (Suc i) rest s1 = Inr s'"
    by (auto split: sum.splits prod.splits)
  then show ?case using Cons.IH compileBlock_decls by metis
qed

lemma runInit_decls:
  assumes "runInit ext c s = Inr s'"
  shows "decls s' = decls s"
proof (cases "length (Blocks (c_f c)) = 0")
  case True
  with assms show ?thesis by (auto simp: runInit_def)
next
  case False
  define s1 where "s1 = s\<lparr>fn := Some (c_fn c)\<rparr>"
  define s2 where "s2 = s1\<lparr>pkg := MakeBlocks (c_fn c) (length (Blocks (c_f c))) (pkg s1)\<rparr>"
  from assms False obtain s4 where
    b: "compileBlocks ext (c_name c) 0 (Blocks (c_f c)) (s2\<lparr>b_blk := None\<rparr>) = Inr s4"
    and s': "s' = s4\<lparr>fn := None\<rparr>"
    by (auto simp: runInit_def Let_def s1_def s2_def split: sum.splits)
  have "decls s2 = decls s1" unfolding s2_def by (rule decls_MakeBlocks)
  then have "decls (s2\<lparr>b_blk := None\<rparr>) = decls s" by (simp add: s1_def)
  with compileBlocks_decls [OF b] show ?thesis by (simp add: s')
qed

lemma runInits_decls: "runInits ext cs s = Inr s' \<Longrightarrow> decls s' = decls s"
proof (induction cs arbitrary: s)
  case Nil
  then show ?case by simp
next
  case (Cons c cs)
  then obtain s1 where "runInit ext c s = Inr s1" "runInits ext cs s1 = Inr s'"
    by (auto split: sum.splits)
  then show ?case using Cons.IH runInit_decls by metis
qed

lemma regOK_decls: "decls s' = decls s \<Longrightarrow> regOK s \<Longrightarrow> regOK s'"
proof -
  assume d: "decls s' = decls s" and r: "regOK s"
  from d have idx: "p_fnIdx (pkg s') = p_fnIdx (pkg s)" "p_varIdx (pkg s') = p_varIdx (pkg s)"
    and vars: "p_vars (pkg s') = p_vars (pkg s)"
    and names: "map f_name (p_fns (pkg s')) = map f_name (p_fns (pkg s))"
    by (simp_all add: decls_def)
  from names have len: "length (p_fns (pkg s')) = length (p_fns (pkg s))"
    by (rule map_eq_imp_length_eq)
  have nm: "f_name (p_fns (pkg s') ! h) = f_name (p_fns (pkg s) ! h)" if "h < length (p_fns (pkg s))" for h
    using names that len by (metis nth_map)
  show "regOK s'"
    using r unfolding regOK_def idx vars len by (auto simp: nm)
qed

lemma resolve_Function:
  assumes "p_fnIdx (pkg c) (declName ext f) = Some h"
  shows "compileValue ext (Function (info f)) c = Inr (FnExpr h, c)"
  using assms by (simp add: compileValue.simps funcOf_def declName_def)

lemma resolve_Global:
  assumes "p_varIdx (pkg c) (globalName ext g) = Some h"
  shows "compileValue ext (Global g) c = Inr (GlobalExpr h, c)"
  using assms by (simp add: compileValue.simps varOf_def globalName_def)

lemmas pkg_eval_simps =
  NewPackage_def newContext_def compileFunc_eq compileGlobal_eq
  declName_def globalName_def runInit_def compileBlock_def callInit_def MakeBlocks_def
  compileType_def

section \<open>Two phases\<close>

lemma declared_context:
  assumes "declareMembers ext ms s = Inr ctx"
  shows "ctx = declGlobals ext (globalsOf ms) (declFuncs ext (nonGenericFuncs ms) s)"
  using assms by (simp add: declareMembers_closed split: if_splits)

lemma declared_fields:
  assumes "declareMembers ext ms (newContext spkg) = Inr ctx"
  shows "inits ctx = map (\<lambda>(i, f). \<lparr>c_name = declName ext f, c_fn = i, c_f = f\<rparr>)
                       (enumerate 0 (nonGenericFuncs ms))"
    and "p_fns (pkg ctx) =
           map (\<lambda>f. \<lparr>f_name = declName ext f, f_sig = fn_Signature (info f), f_blks = []\<rparr>)
               (nonGenericFuncs ms)"
    and "map v_name (p_vars (pkg ctx)) = map (globalName ext) (globalsOf ms)"
    and "fn ctx = None" and "b_blk ctx = None" and "bvals ctx = Map.empty"
    and "p_name (pkg ctx) = pkg_name spkg" and "p_path (pkg ctx) = pkg_path spkg"
  unfolding declared_context [OF assms]
  by (simp_all add: declGlobals_fields declFuncs_fields) (simp_all add: newContext_def)

lemma declared_registry:
  assumes "declareMembers ext ms (newContext spkg) = Inr ctx"
  shows "regOK ctx"
    and "f \<in> set (nonGenericFuncs ms) \<Longrightarrow> declName ext f \<in> dom (p_fnIdx (pkg ctx))"
    and "g \<in> set (globalsOf ms) \<Longrightarrow> globalName ext g \<in> dom (p_varIdx (pkg ctx))"
proof -
  let ?s1 = "declFuncs ext (nonGenericFuncs ms) (newContext spkg)"
  have c: "ctx = declGlobals ext (globalsOf ms) ?s1" by (rule declared_context [OF assms])
  have r1: "regOK ?s1"
    and d1: "\<forall>f \<in> set (nonGenericFuncs ms). declName ext f \<in> dom (p_fnIdx (pkg ?s1))"
    using declFuncs_regOK [OF regOK_newContext, of ext "nonGenericFuncs ms" spkg] by blast+
  from declGlobals_regOK [OF r1, of ext "globalsOf ms"]
  show "regOK ctx"
    and "g \<in> set (globalsOf ms) \<Longrightarrow> globalName ext g \<in> dom (p_varIdx (pkg ctx))"
    unfolding c by blast+
  show "f \<in> set (nonGenericFuncs ms) \<Longrightarrow> declName ext f \<in> dom (p_fnIdx (pkg ctx))"
    using d1 unfolding c by (simp add: declGlobals_fields)
qed

lemma declared_function_resolves:
  assumes d: "declareMembers ext ms (newContext spkg) = Inr ctx"
    and c: "decls c = decls ctx" and f: "f \<in> set (nonGenericFuncs ms)"
  shows "\<exists>h. compileValue ext (Function (info f)) c = Inr (FnExpr h, c)
           \<and> h < length (p_fns (pkg ctx)) \<and> f_name (p_fns (pkg ctx) ! h) = declName ext f"
proof -
  from declared_registry(2) [OF d f] obtain h where
    h: "p_fnIdx (pkg ctx) (declName ext f) = Some h" by auto
  with c have "p_fnIdx (pkg c) (declName ext f) = Some h" by (simp add: decls_def)
  from resolve_Function [OF this] h declared_registry(1) [OF d]
  show ?thesis unfolding regOK_def by blast
qed

lemma declared_global_resolves:
  assumes d: "declareMembers ext ms (newContext spkg) = Inr ctx"
    and c: "decls c = decls ctx" and g: "g \<in> set (globalsOf ms)"
  shows "\<exists>h. compileValue ext (Global g) c = Inr (GlobalExpr h, c)
           \<and> h < length (p_vars (pkg ctx)) \<and> v_name (p_vars (pkg ctx) ! h) = globalName ext g"
proof -
  from declared_registry(3) [OF d g] obtain h where
    h: "p_varIdx (pkg ctx) (globalName ext g) = Some h" by auto
  with c have "p_varIdx (pkg c) (globalName ext g) = Some h" by (simp add: decls_def)
  from resolve_Global [OF this] h declared_registry(1) [OF d]
  show ?thesis unfolding regOK_def by blast
qed

lemma compileInstr_decls: "compileInstr ext instr c = Inr c' \<Longrightarrow> decls c' = decls c"
  using compileInstr_keeps keeps_decls by blast

lemma sortedMembers_pkgAB: "sortedMembers pkgAB = [MFunction fA, MFunction fB, MGlobal gV]"
  by (simp add: sortedMembers_def pkgAB_def fA_def fB_def fB_info_def gV_def)

section \<open>Type members\<close>

lemma set_sortedMembers: "set (sortedMembers spkg) = snd ` set (Members spkg)"
  by (simp add: sortedMembers_def)

lemma NewPackage_type_member:
  assumes "MType n p \<in> snd ` set (Members spkg)"
  shows "NewPackage ext spkg = Inl Todo"
proof -
  from assms have "\<exists>m \<in> set (sortedMembers spkg). isType m"
    unfolding set_sortedMembers by (rule bexI [rotated]) simp
  then show ?thesis by (simp add: NewPackage_def declareMembers_closed)
qed

text \<open>
  C1, refuted as stated: a package whose only member is a type is not translated.
\<close>

theorem type_member_counterexample:
  "NewPackage ext0 pkgT = Inl Todo"
  by (simp add: NewPackage_def sortedMembers_def pkgT_def compileType_def)

text \<open>
  C1, amended. For a member that is a type, \<open>compileType\<close> panics with \<open>todo\<close>:
  the declare step declares nothing and fails, and the translation of every package
  that has a type among its members ends with this panic.
\<close>

theorem type_member_panics:
  "declareMember ext (MType n p) s = Inl Todo
   \<and> (MType n p \<in> snd ` set (Members spkg) \<longrightarrow> NewPackage ext spkg = Inl Todo)"
  using NewPackage_type_member by (simp add: compileType_def)

theorem type_member_panics_witness:
  "MType ''T'' 5 \<in> snd ` set (Members pkgT) \<and> NewPackage ext0 pkgT = Inl Todo"
  using type_member_panics [of ext0 "''T''" 5 ctxA pkgT]
  by (simp add: pkgT_def)

section \<open>What is skipped\<close>

lemma unsafeInit_call_skipped:
  assumes "funcKind ext callee = fnUnsafeInit"
  shows "\<exists>e. compileInstrAndValue ext (Call a callee args) s = Inr (e, s)"
  using assms by (cases "bvals s (Call a callee args)") (simp_all add: compileInstrAndValue.simps)

lemma nonGenericFuncs_typeparams:
  "f \<in> set (nonGenericFuncs ms) \<Longrightarrow> fn_typeparams (info f) = None \<and> MFunction f \<in> set ms"
  by (induction ms rule: nonGenericFuncs.induct) (auto split: if_splits)

lemma NewPackage_declared:
  assumes "NewPackage ext spkg = Inr p"
  shows "map f_name (p_fns p) = map (declName ext) (nonGenericFuncs (sortedMembers spkg))"
    and "map v_name (p_vars p) = map (globalName ext) (globalsOf (sortedMembers spkg))"
proof -
  from assms obtain ctx c where
    d: "declareMembers ext (sortedMembers spkg) (newContext spkg) = Inr ctx"
    and r: "runInits ext (inits ctx) ctx = Inr c" and p: "p = pkg c"
    by (auto simp: NewPackage_def split: sum.splits)
  from runInits_decls [OF r] have "decls c = decls ctx" .
  then have "map f_name (p_fns p) = map f_name (p_fns (pkg ctx))"
    and "p_vars p = p_vars (pkg ctx)"
    by (simp_all add: decls_def p)
  with declared_fields(2,3) [OF d]
  show "map f_name (p_fns p) = map (declName ext) (nonGenericFuncs (sortedMembers spkg))"
    and "map v_name (p_vars p) = map (globalName ext) (globalsOf (sortedMembers spkg))"
    by (simp_all add: comp_def)
qed

text \<open>
  C9. A call whose callee classifies as UnsafeNoOpInit leaves the context as it is:
  neither callee nor arguments are resolved and no operation is emitted. A function
  member with type parameters leaves the context as it is: no function is declared and
  no closure is registered for its body, and the functions of a translated package are
  those of the members without type parameters, one for one.
\<close>

theorem skipped_constructs:
  "(funcKind ext callee = fnUnsafeInit \<longrightarrow>
      compileInstr ext (IV (Call a callee args)) s = Inr s
      \<and> (\<exists>e. compileValue ext (InstrVal (Call a callee args)) s = Inr (e, s)))
   \<and> (fn_typeparams (info f) \<noteq> None \<longrightarrow>
        declareMember ext (MFunction f) s = Inr s
        \<and> f \<notin> set (nonGenericFuncs (sortedMembers spkg)))
   \<and> (NewPackage ext spkg = Inr p \<longrightarrow>
        map f_name (p_fns p) = map (declName ext) (nonGenericFuncs (sortedMembers spkg)))"
proof (intro conjI impI)
  assume k: "funcKind ext callee = fnUnsafeInit"
  from unsafeInit_call_skipped [OF k, of a args s]
  show "compileInstr ext (IV (Call a callee args)) s = Inr s" by auto
  from unsafeInit_call_skipped [OF k, of a args s]
  show "\<exists>e. compileValue ext (InstrVal (Call a callee args)) s = Inr (e, s)"
    by (simp add: compileValue.simps)
next
  assume g: "fn_typeparams (info f) \<noteq> None"
  then show "declareMember ext (MFunction f) s = Inr s" by simp
  from g show "f \<notin> set (nonGenericFuncs (sortedMembers spkg))"
    by (auto dest: nonGenericFuncs_typeparams)
next
  assume "NewPackage ext spkg = Inr p"
  then show "map f_name (p_fns p) = map (declName ext) (nonGenericFuncs (sortedMembers spkg))"
    by (rule NewPackage_declared(1))
qed

lemma sortedMembers_pkgG: "sortedMembers pkgG = [MFunction fB, MFunction genericF]"
  by (simp add: sortedMembers_def pkgG_def fB_def fB_info_def genericF_def)

theorem skipped_constructs_witness:
  "funcKind ext0 (Function unsafe_init) = fnUnsafeInit
   \<and> compileInstr ext0 (IV (Call 9 (Function unsafe_init) [])) ctxA = Inr ctxA
   \<and> fn_typeparams (info genericF) \<noteq> None
   \<and> declareMember ext0 (MFunction genericF) ctxA = Inr ctxA
   \<and> (\<exists>p. NewPackage ext0 pkgG = Inr p \<and> map f_name (p_fns p) = [''main.B''])"
proof -
  have k: "funcKind ext0 (Function unsafe_init) = fnUnsafeInit"
    by (simp add: eval_simps unsafe_init_def sig0_def)
  have g: "fn_typeparams (info genericF) \<noteq> None" by (simp add: genericF_def)
  obtain p where n: "NewPackage ext0 pkgG = Inr p"
    by (simp only: NewPackage_def sortedMembers_pkgG)
       (simp add: pkg_eval_simps eval_simps fB_def fB_info_def genericF_def ext0_def sig0_def
          pkgG_def)
  have names: "map (declName ext0) (nonGenericFuncs (sortedMembers pkgG)) = [''main.B'']"
    by (simp add: sortedMembers_pkgG genericF_def fB_def fB_info_def declName_def ext0_def)
  note T = skipped_constructs [of ext0 "Function unsafe_init" 9 "[]" ctxA genericF pkgG p]
  from T k g n names show ?thesis by simp
qed

section \<open>The order of the declarations\<close>

lemma nonGenericFuncs_filter:
  "nonGenericFuncs (map snd xs) = nonGenericFuncs (map snd (filter (\<lambda>m. isDeclaredFunc (snd m)) xs))"
proof (induction xs)
  case Nil
  show ?case by simp
next
  case (Cons x xs)
  obtain n m where x: "x = (n, m)" by (cases x)
  show ?case using Cons.IH by (cases m) (simp_all add: x)
qed

lemma globalsOf_filter:
  "globalsOf (map snd xs) = globalsOf (map snd (filter (\<lambda>m. isGlobalMember (snd m)) xs))"
proof (induction xs)
  case Nil
  show ?case by simp
next
  case (Cons x xs)
  obtain n m where x: "x = (n, m)" by (cases x)
  show ?case using Cons.IH by (cases m) (simp_all add: x)
qed

lemma sorted_part_unique:
  assumes "mset ys = mset xs" and "distinct (map k (filter P xs))"
  shows "filter P (sort_key k ys) = filter P (sort_key k xs)"
proof -
  from assms(1) have m: "mset (filter P ys) = mset (filter P xs)" by (metis mset_filter)
  from assms(2) have "inj_on k (set (filter P xs))" by (simp add: distinct_map)
  with m have "inj_on k (set (filter P ys))" by (metis mset_eq_setD)
  from sort_key_eq_sort_key [OF m this] show ?thesis by (simp add: filter_sort)
qed

lemma sortedMembers_parts:
  assumes "mset (Members spkg') = mset (Members spkg)"
  shows "distinct (map (\<lambda>m. member_Pos (snd m)) (filter (\<lambda>m. isDeclaredFunc (snd m)) (Members spkg)))
           \<Longrightarrow> nonGenericFuncs (sortedMembers spkg') = nonGenericFuncs (sortedMembers spkg)"
    and "distinct (map (\<lambda>m. member_Pos (snd m)) (filter (\<lambda>m. isGlobalMember (snd m)) (Members spkg)))
           \<Longrightarrow> globalsOf (sortedMembers spkg') = globalsOf (sortedMembers spkg)"
    and "(\<exists>m \<in> set (sortedMembers spkg'). isType m) = (\<exists>m \<in> set (sortedMembers spkg). isType m)"
proof -
  show "nonGenericFuncs (sortedMembers spkg') = nonGenericFuncs (sortedMembers spkg)"
    if "distinct (map (\<lambda>m. member_Pos (snd m)) (filter (\<lambda>m. isDeclaredFunc (snd m)) (Members spkg)))"
    unfolding sortedMembers_def
    using sorted_part_unique [OF assms that]
    by (subst (1 2) nonGenericFuncs_filter) simp
  show "globalsOf (sortedMembers spkg') = globalsOf (sortedMembers spkg)"
    if "distinct (map (\<lambda>m. member_Pos (snd m)) (filter (\<lambda>m. isGlobalMember (snd m)) (Members spkg)))"
    unfolding sortedMembers_def
    using sorted_part_unique [OF assms that]
    by (subst (1 2) globalsOf_filter) simp
  from assms have "set (Members spkg') = set (Members spkg)" by (rule mset_eq_setD)
  then show "(\<exists>m \<in> set (sortedMembers spkg'). isType m) = (\<exists>m \<in> set (sortedMembers spkg). isType m)"
    by (simp add: set_sortedMembers)
qed

lemma sortedMembers_sorted: "sorted (map member_Pos (sortedMembers spkg))"
  using sorted_sort_key [of "\<lambda>m. member_Pos (snd m)" "Members spkg"]
  by (simp add: sortedMembers_def comp_def)

lemma sortedMembers_pkgXY: "sortedMembers pkgXY = [MFunction fX, MFunction fY]"
  by (simp add: sortedMembers_def pkgXY_def fX_def fY_def)

lemma sortedMembers_pkgYX: "sortedMembers pkgYX = [MFunction fY, MFunction fX]"
  by (simp add: sortedMembers_def pkgYX_def fX_def fY_def)

text \<open>
  C8, refuted as stated: two functions at one position are declared in the order in
  which the member map yields them, and the two packages returned differ.
\<close>

theorem tied_positions_counterexample:
  "mset (Members pkgYX) = mset (Members pkgXY)
   \<and> pkg_name pkgYX = pkg_name pkgXY \<and> pkg_path pkgYX = pkg_path pkgXY
   \<and> NewPackage ext0 pkgYX \<noteq> NewPackage ext0 pkgXY"
proof -
  obtain p where p: "NewPackage ext0 pkgXY = Inr p"
    by (simp only: NewPackage_def sortedMembers_pkgXY)
       (simp add: pkg_eval_simps eval_simps fX_def fY_def ext0_def sig0_def pkgXY_def)
  obtain q where q: "NewPackage ext0 pkgYX = Inr q"
    by (simp only: NewPackage_def sortedMembers_pkgYX)
       (simp add: pkg_eval_simps eval_simps fX_def fY_def ext0_def sig0_def pkgYX_def)
  have "map f_name (p_fns p) = [''main.X'', ''main.Y'']"
    using NewPackage_declared(1) [OF p]
    by (simp add: sortedMembers_pkgXY fX_def fY_def declName_def ext0_def)
  moreover have "map f_name (p_fns q) = [''main.Y'', ''main.X'']"
    using NewPackage_declared(1) [OF q]
    by (simp add: sortedMembers_pkgYX fX_def fY_def declName_def ext0_def)
  ultimately have "q \<noteq> p" by auto
  then have "NewPackage ext0 pkgYX \<noteq> NewPackage ext0 pkgXY" by (simp add: p q)
  then show ?thesis by (simp add: pkgXY_def pkgYX_def)
qed

text \<open>
  C8, amended. Two runs on the same package differ at most in the order in which the
  member map yields its entries. The members are processed in ascending order of
  position. If no two declared functions share a position and no two globals do, both
  runs declare the same functions in the same order and the same globals in the same
  order, and \<open>NewPackage\<close> returns the same result; the declarations of the package
  returned follow the sorted members. A function and a global may share a position (as
  \<open>init\<close> and \<open>init$guard\<close> do): the two runs may then process them in either
  order, with the same result.
\<close>

theorem deterministic_order:
  assumes "mset (Members spkg') = mset (Members spkg)"
    and "pkg_name spkg' = pkg_name spkg" and "pkg_path spkg' = pkg_path spkg"
    and "distinct (map (\<lambda>m. member_Pos (snd m)) (filter (\<lambda>m. isDeclaredFunc (snd m)) (Members spkg)))"
    and "distinct (map (\<lambda>m. member_Pos (snd m)) (filter (\<lambda>m. isGlobalMember (snd m)) (Members spkg)))"
  shows "NewPackage ext spkg' = NewPackage ext spkg
    \<and> sorted (map member_Pos (sortedMembers spkg))
    \<and> nonGenericFuncs (sortedMembers spkg') = nonGenericFuncs (sortedMembers spkg)
    \<and> globalsOf (sortedMembers spkg') = globalsOf (sortedMembers spkg)
    \<and> (NewPackage ext spkg = Inr p \<longrightarrow>
          map f_name (p_fns p) = map (declName ext) (nonGenericFuncs (sortedMembers spkg))
          \<and> map v_name (p_vars p) = map (globalName ext) (globalsOf (sortedMembers spkg)))"
proof (intro conjI impI)
  note parts = sortedMembers_parts [OF assms(1)]
  have c: "newContext spkg' = newContext spkg" by (simp add: newContext_def assms(2,3))
  show "NewPackage ext spkg' = NewPackage ext spkg"
    unfolding NewPackage_def declareMembers_closed c parts(1) [OF assms(4)] parts(2) [OF assms(5)]
      parts(3) ..
  show "sorted (map member_Pos (sortedMembers spkg))" by (rule sortedMembers_sorted)
  show "nonGenericFuncs (sortedMembers spkg') = nonGenericFuncs (sortedMembers spkg)"
    by (rule parts(1) [OF assms(4)])
  show "globalsOf (sortedMembers spkg') = globalsOf (sortedMembers spkg)"
    by (rule parts(2) [OF assms(5)])
next
  assume "NewPackage ext spkg = Inr p"
  then show "map f_name (p_fns p) = map (declName ext) (nonGenericFuncs (sortedMembers spkg))"
    and "map v_name (p_vars p) = map (globalName ext) (globalsOf (sortedMembers spkg))"
    by (rule NewPackage_declared)+
qed

lemma sortedMembers_pkgIG:
  "sortedMembers pkgIG = [MGlobal gGuard, MFunction fInit, MFunction fB]"
  by (simp add: sortedMembers_def pkgIG_def fInit_def fB_def fB_info_def gGuard_def)

lemma sortedMembers_pkgGI:
  "sortedMembers pkgGI = [MFunction fInit, MGlobal gGuard, MFunction fB]"
  by (simp add: sortedMembers_def pkgGI_def fInit_def fB_def fB_info_def gGuard_def)

theorem deterministic_order_witness:
  "mset (Members pkgGI) = mset (Members pkgIG)
   \<and> member_Pos (MFunction fInit) = member_Pos (MGlobal gGuard)
   \<and> sortedMembers pkgGI \<noteq> sortedMembers pkgIG
   \<and> NewPackage ext0 pkgGI = NewPackage ext0 pkgIG
   \<and> (\<exists>p. NewPackage ext0 pkgIG = Inr p \<and> map f_name (p_fns p) = [''main.init'', ''main.B'']
         \<and> map v_name (p_vars p) = [''main.init$guard''])"
proof -
  have m: "mset (Members pkgGI) = mset (Members pkgIG)"
    by (simp add: pkgGI_def pkgIG_def)
  have n: "pkg_name pkgGI = pkg_name pkgIG" "pkg_path pkgGI = pkg_path pkgIG"
    by (simp_all add: pkgGI_def pkgIG_def)
  have d1: "distinct (map (\<lambda>m. member_Pos (snd m)) (filter (\<lambda>m. isDeclaredFunc (snd m)) (Members pkgIG)))"
    and d2: "distinct (map (\<lambda>m. member_Pos (snd m)) (filter (\<lambda>m. isGlobalMember (snd m)) (Members pkgIG)))"
    by (simp_all add: pkgIG_def fInit_def fB_def fB_info_def gGuard_def)
  have tie: "member_Pos (MFunction fInit) = member_Pos (MGlobal gGuard)"
    by (simp add: fInit_def gGuard_def)
  have ne: "sortedMembers pkgGI \<noteq> sortedMembers pkgIG"
    by (simp add: sortedMembers_pkgGI sortedMembers_pkgIG)
  obtain p where p: "NewPackage ext0 pkgIG = Inr p"
    by (simp only: NewPackage_def sortedMembers_pkgIG)
       (simp add: pkg_eval_simps eval_simps fInit_def fB_def fB_info_def gGuard_def ext0_def
          sig0_def pkgIG_def)
  have names: "map (declName ext0) (nonGenericFuncs (sortedMembers pkgIG)) = [''main.init'', ''main.B'']"
    "map (globalName ext0) (globalsOf (sortedMembers pkgIG)) = [''main.init$guard'']"
    by (simp_all add: sortedMembers_pkgIG fInit_def fB_def fB_info_def gGuard_def declName_def
          globalName_def ext0_def)
  note T = deterministic_order [OF m n d1 d2, of ext0 p]
  from T p names m tie ne show ?thesis by simp
qed

section \<open>The entry block of the entry function\<close>

lemma opsAt_upd [simp]:
  "opsAt (s\<lparr>fn := x\<rparr>) bb = opsAt s bb"
  "opsAt (s\<lparr>bvals := m\<rparr>) bb = opsAt s bb"
  "opsAt (s\<lparr>b_blk := b\<rparr>) bb = opsAt s bb"
  by (simp_all add: opsAt_def)

lemma keeps_prefix: "keeps s s' \<Longrightarrow> prefix (opsAt s bb) (opsAt s' bb)"
  unfolding keeps_def frame_def by blast

lemma callInit_Inr:
  assumes "callInit s = Inr s'" and "b_blk s = Some bb"
  shows "\<exists>h. p_fnIdx (pkg s) ''main.init'' = Some h \<and> opsAt s' bb = opsAt s bb @ [Op_Call (FnExpr h) []]"
  using assms
  by (auto simp: callInit_def split: option.splits sum.splits prod.splits dest: emit_ops)

lemma compileBlock_prefix:
  assumes "compileBlock ext block doInit s = Inr (ret, s')"
  shows "prefix (opsAt s bb) (opsAt s' bb)"
proof -
  from compileBlock_Inr [OF assms] obtain s3 where
    a: "(if doInit then callInit (s\<lparr>b_blk := Some ret, bvals := Map.empty\<rparr>)
               else Inr (s\<lparr>b_blk := Some ret, bvals := Map.empty\<rparr>)) = Inr s3"
    and b: "compileInstrs ext (Instrs block) s3 = Inr s'" by blast
  have "keeps (s\<lparr>b_blk := Some ret, bvals := Map.empty\<rparr>) s3"
    using a by (auto split: if_splits intro: callInit_keeps keeps_refl)
  from keeps_prefix [OF this, of bb] keeps_prefix [OF compileInstrs_keeps [OF b], of bb]
  show ?thesis by simp
qed

lemma compileBlocks_prefix:
  "compileBlocks ext name i blocks s = Inr s' \<Longrightarrow> prefix (opsAt s bb) (opsAt s' bb)"
proof (induction blocks arbitrary: i s)
  case Nil
  then show ?case by simp
next
  case (Cons block rest)
  then obtain ret s1 where
    1: "compileBlock ext block (i = 0 \<and> name = ''main'') s = Inr (ret, s1)" and
    2: "compileBlocks ext name (Suc i) rest s1 = Inr s'"
    by (auto split: sum.splits prod.splits)
  from compileBlock_prefix [OF 1, of bb] Cons.IH [OF 2] show ?case by simp
qed

lemma compileBlock_init_first:
  assumes "compileBlock ext block True s = Inr (ret, s')"
  shows "\<exists>h s3 rest. p_fnIdx (pkg s) ''main.init'' = Some h
           \<and> callInit (s\<lparr>b_blk := Some ret, bvals := Map.empty\<rparr>) = Inr s3
           \<and> opsAt s3 ret = opsAt s ret @ [Op_Call (FnExpr h) []]
           \<and> compileInstrs ext (Instrs block) s3 = Inr s'
           \<and> opsAt s' ret = opsAt s ret @ Op_Call (FnExpr h) [] # rest"
proof -
  from compileBlock_Inr [OF assms] obtain s3 where
    a: "callInit (s\<lparr>b_blk := Some ret, bvals := Map.empty\<rparr>) = Inr s3"
    and b: "compileInstrs ext (Instrs block) s3 = Inr s'" by auto
  from callInit_Inr [OF a, of ret] obtain h where
    h: "p_fnIdx (pkg s) ''main.init'' = Some h"
    and o: "opsAt s3 ret = opsAt s ret @ [Op_Call (FnExpr h) []]" by auto
  from keeps_prefix [OF compileInstrs_keeps [OF b], of ret] obtain rest where
    "opsAt s' ret = opsAt s3 ret @ rest" by (auto simp: prefix_def)
  with o have "opsAt s' ret = opsAt s ret @ Op_Call (FnExpr h) [] # rest" by simp
  with h a o b show ?thesis by blast
qed

lemma compileBlock_plain:
  assumes "compileBlock ext block False s = Inr (ret, s')"
  shows "compileInstrs ext (Instrs block) (s\<lparr>b_blk := Some ret, bvals := Map.empty\<rparr>) = Inr s'"
  using compileBlock_Inr [OF assms] by auto

lemma compileBlocks_plain:
  "name \<noteq> ''main'' \<or> i \<noteq> 0 \<Longrightarrow> compileBlocks ext name i blocks s = buildBlocksPlain ext blocks s"
  by (induction blocks arbitrary: i s) (auto split: sum.splits prod.splits)

lemma compileBlocks_main:
  "compileBlocks ext ''main'' 0 (block # rest) s =
     (case compileBlock ext block True s of
        Inl e \<Rightarrow> Inl e
      | Inr (ret, s1) \<Rightarrow> buildBlocksPlain ext rest s1)"
  by (simp add: compileBlocks_plain split: sum.splits prod.splits)

lemma runInit_entry_block:
  assumes r: "runInit ext c s = Inr s'" and n: "c_name c = ''main''"
    and b: "Blocks (c_f c) = b0 # rest"
    and h: "c_fn c < length (p_fns (pkg s))" and e: "f_blks (p_fns (pkg s) ! c_fn c) = []"
  shows "\<exists>h ops. p_fnIdx (pkg s) ''main.init'' = Some h
           \<and> opsAt s' (c_fn c, Index b0) = Op_Call (FnExpr h) [] # ops"
proof -
  define s1 where "s1 = s\<lparr>fn := Some (c_fn c)\<rparr>"
  define s2 where "s2 = s1\<lparr>pkg := MakeBlocks (c_fn c) (length (Blocks (c_f c))) (pkg s1)\<rparr>"
  define s3 where "s3 = s2\<lparr>b_blk := None\<rparr>"
  from r b obtain s4 where
    cb: "compileBlocks ext ''main'' 0 (b0 # rest) s3 = Inr s4" and s': "s' = s4\<lparr>fn := None\<rparr>"
    by (auto simp: runInit_def Let_def s1_def s2_def s3_def n split: sum.splits)
  from cb obtain ret sa where
    c0: "compileBlock ext b0 True s3 = Inr (ret, sa)" and
    cr: "compileBlocks ext ''main'' (Suc 0) rest sa = Inr s4"
    by (auto split: sum.splits prod.splits)
  from compileBlock_Inr [OF c0] have fb: "fnBlock (Index b0) s3 = Inr ret" by blast
  have fn3: "fn s3 = Some (c_fn c)" by (simp add: s3_def s2_def s1_def)
  from fb fn3 have ret: "ret = (c_fn c, Index b0)"
    and lt: "Index b0 < length (f_blks (p_fns (pkg s3) ! c_fn c))"
    by (auto simp: fnBlock_def split: if_splits)
  have blks: "f_blks (p_fns (pkg s3) ! c_fn c) = replicate (length (Blocks (c_f c))) []"
    using h e by (simp add: s3_def s2_def s1_def MakeBlocks_def)
  have empty: "opsAt s3 ret = []"
    using lt by (simp add: ret opsAt_def blks)
  from compileBlock_init_first [OF c0] empty obtain hh rest' where
    i: "p_fnIdx (pkg s3) ''main.init'' = Some hh" and
    o: "opsAt sa ret = Op_Call (FnExpr hh) [] # rest'" by auto
  from compileBlocks_prefix [OF cr, of ret] o obtain more where
    "opsAt s4 ret = Op_Call (FnExpr hh) [] # rest' @ more" by (auto simp: prefix_def)
  moreover have "p_fnIdx (pkg s) ''main.init'' = Some hh"
    using i by (simp add: s3_def s2_def s1_def MakeBlocks_def)
  ultimately show ?thesis by (auto simp: s' ret)
qed

text \<open>
  C7. \<open>compileBlock\<close> with \<open>doInit\<close> set looks up \<open>main.init\<close>, appends the call
  to it to the block before it lowers any instruction of the block, and the operations
  of the instructions follow this call. Without \<open>doInit\<close> the block receives only
  what the sweep over its instructions emits. \<open>doInit\<close> is set for the block at index
  0 of the function named \<open>main\<close> and for no other block of any function. When the
  body of \<open>main\<close> is built into a function that has no blocks yet, the first
  operation of its entry block is the call to the package initializer.
\<close>

theorem entry_block_calls_init:
  "(compileBlock ext block True s = Inr (ret, s') \<longrightarrow>
      (\<exists>h s3 rest. p_fnIdx (pkg s) ''main.init'' = Some h
         \<and> callInit (s\<lparr>b_blk := Some ret, bvals := Map.empty\<rparr>) = Inr s3
         \<and> opsAt s3 ret = opsAt s ret @ [Op_Call (FnExpr h) []]
         \<and> compileInstrs ext (Instrs block) s3 = Inr s'
         \<and> opsAt s' ret = opsAt s ret @ Op_Call (FnExpr h) [] # rest))
   \<and> (compileBlock ext block False s = Inr (ret, s') \<longrightarrow>
        compileInstrs ext (Instrs block) (s\<lparr>b_blk := Some ret, bvals := Map.empty\<rparr>) = Inr s')
   \<and> compileBlocks ext ''main'' 0 (block # blocks) s =
        (case compileBlock ext block True s of
           Inl e \<Rightarrow> Inl e
         | Inr (r, s1) \<Rightarrow> buildBlocksPlain ext blocks s1)
   \<and> (name \<noteq> ''main'' \<or> i \<noteq> 0 \<longrightarrow>
        compileBlocks ext name i blocks s = buildBlocksPlain ext blocks s)
   \<and> (runInit ext c s = Inr s2 \<and> c_name c = ''main'' \<and> Blocks (c_f c) = b0 # rest0
        \<and> c_fn c < length (p_fns (pkg s)) \<and> f_blks (p_fns (pkg s) ! c_fn c) = [] \<longrightarrow>
        (\<exists>h ops. p_fnIdx (pkg s) ''main.init'' = Some h
           \<and> opsAt s2 (c_fn c, Index b0) = Op_Call (FnExpr h) [] # ops))"
proof (intro conjI impI)
  assume "compileBlock ext block True s = Inr (ret, s')"
  then show "\<exists>h s3 rest. p_fnIdx (pkg s) ''main.init'' = Some h
         \<and> callInit (s\<lparr>b_blk := Some ret, bvals := Map.empty\<rparr>) = Inr s3
         \<and> opsAt s3 ret = opsAt s ret @ [Op_Call (FnExpr h) []]
         \<and> compileInstrs ext (Instrs block) s3 = Inr s'
         \<and> opsAt s' ret = opsAt s ret @ Op_Call (FnExpr h) [] # rest"
    by (rule compileBlock_init_first)
next
  assume "compileBlock ext block False s = Inr (ret, s')"
  then show "compileInstrs ext (Instrs block) (s\<lparr>b_blk := Some ret, bvals := Map.empty\<rparr>) = Inr s'"
    by (rule compileBlock_plain)
next
  show "compileBlocks ext ''main'' 0 (block # blocks) s =
        (case compileBlock ext block True s of
           Inl e \<Rightarrow> Inl e
         | Inr (r, s1) \<Rightarrow> buildBlocksPlain ext blocks s1)"
    by (rule compileBlocks_main)
next
  assume "name \<noteq> ''main'' \<or> i \<noteq> 0"
  then show "compileBlocks ext name i blocks s = buildBlocksPlain ext blocks s"
    by (rule compileBlocks_plain)
next
  assume "runInit ext c s = Inr s2 \<and> c_name c = ''main'' \<and> Blocks (c_f c) = b0 # rest0
        \<and> c_fn c < length (p_fns (pkg s)) \<and> f_blks (p_fns (pkg s) ! c_fn c) = []"
  then show "\<exists>h ops. p_fnIdx (pkg s) ''main.init'' = Some h
           \<and> opsAt s2 (c_fn c, Index b0) = Op_Call (FnExpr h) [] # ops"
    using runInit_entry_block by blast
qed

theorem entry_block_calls_init_witness:
  "(\<exists>s2. runInit ext0 cMain ctxM = Inr s2
       \<and> opsAt s2 (1, 0) = [Op_Call (FnExpr 0) [], Op_Alloc ''int'' True, Op_Jump 1]
       \<and> opsAt s2 (1, 1) = [Op_Return []])
   \<and> c_name cInit \<noteq> ''main''
   \<and> (\<exists>s2. runInit ext0 cInit ctxM = Inr s2 \<and> opsAt s2 (0, 0) = [Op_Return []])"
proof -
  obtain s2 where 1: "runInit ext0 cMain ctxM = Inr s2"
    and 2: "opsAt s2 (1, 0) = [Op_Call (FnExpr 0) [], Op_Alloc ''int'' True, Op_Jump 1]"
    and 3: "opsAt s2 (1, 1) = [Op_Return []]"
    by (simp add: pkg_eval_simps eval_simps cMain_def fMain_def ctxM_def ext0_def sig0_def)
  obtain s3 where 4: "runInit ext0 cInit ctxM = Inr s3"
    and 5: "opsAt s3 (0, 0) = [Op_Return []]"
    by (simp add: pkg_eval_simps eval_simps cInit_def fInit_def ctxM_def ext0_def sig0_def)
  have 6: "c_name cMain = ''main''" "Blocks (c_f cMain) = hd (Blocks fMain) # tl (Blocks fMain)"
    "c_fn cMain < length (p_fns (pkg ctxM))" "f_blks (p_fns (pkg ctxM) ! c_fn cMain) = []"
    "c_name cInit \<noteq> ''main''" "Index (hd (Blocks fMain)) = 0" "c_fn cMain = 1"
    by (simp_all add: cMain_def cInit_def fMain_def ctxM_def)
  note T = entry_block_calls_init [of ext0 "hd (Blocks fMain)" ctxM "(1, 0)" s2 "[]"
      "c_name cInit" 0 cMain s2 "hd (Blocks fMain)" "tl (Blocks fMain)"]
  from T 1 6 have "\<exists>h ops. opsAt s2 (1, 0) = Op_Call (FnExpr h) [] # ops" by auto
  with 1 2 3 4 5 6 show ?thesis by blast
qed

section \<open>The block-value map\<close>

lemma fresh_refl: "fresh s s"
  by (simp add: fresh_def)

lemma keeps_length: "keeps s s' \<Longrightarrow> length (opsAt s bb) \<le> length (opsAt s' bb)"
  using keeps_prefix [of s s' bb] by (auto simp: prefix_def)

lemma fresh_trans:
  assumes k1: "keeps s s1" and k2: "keeps s1 s2" and f1: "fresh s s1" and f2: "fresh s1 s2"
  shows "fresh s s2"
  unfolding fresh_def
proof (intro allI impI)
  fix k e assume a: "bvals s2 k = Some e"
  from k1 have b: "b_blk s1 = b_blk s" by (rule keeps_b_blk)
  from f2 a consider (old) "bvals s1 k = Some e"
    | (new) h i j where "b_blk s1 = Some (h, i)" "e = InstrExpr h i j"
        "length (opsAt s1 (h, i)) \<le> j" "j < length (opsAt s2 (h, i))"
    unfolding fresh_def by blast
  then show "bvals s k = Some e
        \<or> (\<exists>h i j. b_blk s = Some (h, i) \<and> e = InstrExpr h i j
              \<and> length (opsAt s (h, i)) \<le> j \<and> j < length (opsAt s2 (h, i)))"
  proof cases
    case old
    with f1 consider "bvals s k = Some e"
      | h i j where "b_blk s = Some (h, i)" "e = InstrExpr h i j"
          "length (opsAt s (h, i)) \<le> j" "j < length (opsAt s1 (h, i))"
      unfolding fresh_def by blast
    then show ?thesis
    proof cases
      case 1
      then show ?thesis by simp
    next
      case 2
      with keeps_length [OF k2, of "(h, i)"] show ?thesis by auto
    qed
  next
    case new
    with keeps_length [OF k1, of "(h, i)"] b show ?thesis by auto
  qed
qed

lemma fresh_cache_step:
  assumes k: "keeps s s2" and f: "fresh s s2" and em: "emit ope s2 = Inr (e, s3)"
  shows "fresh s (s3\<lparr>bvals := (bvals s3)(iv \<mapsto> e)\<rparr>)"
proof -
  from em obtain h i where bb: "b_blk s2 = Some (h, i)"
    and e: "e = InstrExpr h i (length (opsAt s2 (h, i)))"
    by (auto simp: emit_def Let_def opsAt_def split: option.splits if_splits prod.splits)
  from emit_ops [OF em bb] have o3: "opsAt s3 (h, i) = opsAt s2 (h, i) @ [ope]" .
  from emit_frame [OF em] have b3: "bvals s3 = bvals s2" by simp
  from k have bs: "b_blk s2 = b_blk s" by (rule keeps_b_blk)
  have k3: "keeps s2 s3" using em by (rule emit_keeps)
  show ?thesis
    unfolding fresh_def
  proof (intro allI impI)
    fix k' e' assume a: "bvals (s3\<lparr>bvals := (bvals s3)(iv \<mapsto> e)\<rparr>) k' = Some e'"
    show "bvals s k' = Some e'
        \<or> (\<exists>h i j. b_blk s = Some (h, i) \<and> e' = InstrExpr h i j
              \<and> length (opsAt s (h, i)) \<le> j
              \<and> j < length (opsAt (s3\<lparr>bvals := (bvals s3)(iv \<mapsto> e)\<rparr>) (h, i)))"
    proof (cases "k' = iv")
      case True
      with a have "e' = e" by simp
      with e bb bs o3 keeps_length [OF k, of "(h, i)"] show ?thesis by auto
    next
      case False
      with a b3 have "bvals s2 k' = Some e'" by simp
      with f consider "bvals s k' = Some e'"
        | h' i' j where "b_blk s = Some (h', i')" "e' = InstrExpr h' i' j"
            "length (opsAt s (h', i')) \<le> j" "j < length (opsAt s2 (h', i'))"
        unfolding fresh_def by blast
      then show ?thesis
      proof cases
        case 1
        then show ?thesis by simp
      next
        case 2
        with keeps_length [OF k3, of "(h', i')"] show ?thesis by auto
      qed
    qed
  qed
qed

lemma compile_fresh:
  "\<forall>e s'. compileInstrAndValue ext iv s = Inr (e, s') \<longrightarrow> fresh s s'"
  "\<forall>e s'. compileValue ext v s = Inr (e, s') \<longrightarrow> fresh s s'"
  "\<forall>es s'. compileValues ext vals hv s = Inr (es, s') \<longrightarrow> fresh s s'"
  "\<forall>es s'. compileValuesLoop ext vs k s = Inr (es, s') \<longrightarrow> fresh s s'"
proof (induction ext iv s and ext v s and ext vals hv s and ext vs k s
       rule: compileInstrAndValue_compileValue_compileValues_compileValuesLoop.induct)
  case (1 ext iv s)
  show ?case
  proof (intro allI impI)
    fix e s' assume A: "compileInstrAndValue ext iv s = Inr (e, s')"
    show "fresh s s'"
    proof (cases "bvals s iv")
      case (Some v)
      with A have "s' = s" by (simp add: compileInstrAndValue.simps)
      then show ?thesis by (simp add: fresh_refl)
    next
      case None
      show ?thesis
      proof (cases iv)
        case (Call a callee args)
        show ?thesis
        proof (cases "funcKind ext callee = fnUnsafeInit")
          case True
          with A None Call have "s' = s" by (simp add: compileInstrAndValue.simps)
          then show ?thesis by (simp add: fresh_refl)
        next
          case False
          from A None Call False obtain fnE s1 argEs s2 s3 where
            c1: "compileValue ext callee s = Inr (fnE, s1)" and
            c2: "compileValues ext args (funcKind ext callee) s1 = Inr (argEs, s2)" and
            c3: "emit (Op_Call fnE argEs) s2 = Inr (e, s3)" and
            s': "s' = s3\<lparr>bvals := (bvals s3)(iv \<mapsto> e)\<rparr>"
            by (auto simp: compileInstrAndValue.simps dest!: cacheRet_Inr split: sum.splits prod.splits)
          from "1.IH"(1) [OF None Call False] c1 have i1: "fresh s s1" by auto
          from "1.IH"(2) [OF None Call False c1 refl] c2 have i2: "fresh s1 s2" by auto
          note k1 = compileValue_keeps [OF c1] and k2 = compileValues_keeps [OF c2]
          from fresh_cache_step [OF keeps_trans [OF k1 k2] fresh_trans [OF k1 k2 i1 i2] c3]
          show ?thesis unfolding s' .
        qed
      next
        case (BinOp a ope X Y)
        from A None BinOp obtain x s1 y s2 s3 where
          c1: "compileValue ext X s = Inr (x, s1)" and
          c2: "compileValue ext Y s1 = Inr (y, s2)" and
          c3: "emit (Op_BinOp ope x y) s2 = Inr (e, s3)" and
          s': "s' = s3\<lparr>bvals := (bvals s3)(iv \<mapsto> e)\<rparr>"
          by (auto simp: compileInstrAndValue.simps dest!: cacheRet_Inr split: sum.splits prod.splits)
        from "1.IH"(3) [OF None BinOp] c1 have i1: "fresh s s1" by auto
        from "1.IH"(4) [OF None BinOp c1 refl] c2 have i2: "fresh s1 s2" by auto
        note k1 = compileValue_keeps [OF c1] and k2 = compileValue_keeps [OF c2]
        from fresh_cache_step [OF keeps_trans [OF k1 k2] fresh_trans [OF k1 k2 i1 i2] c3]
        show ?thesis unfolding s' .
      next
        case (UnOp a ope X)
        from A None UnOp obtain x s1 s3 where
          c1: "compileValue ext X s = Inr (x, s1)" and
          c3: "emit (Op_UnOp ope x) s1 = Inr (e, s3)" and
          s': "s' = s3\<lparr>bvals := (bvals s3)(iv \<mapsto> e)\<rparr>"
          by (auto simp: compileInstrAndValue.simps dest!: cacheRet_Inr split: sum.splits prod.splits)
        from "1.IH"(5) [OF None UnOp] c1 have i1: "fresh s s1" by auto
        from fresh_cache_step [OF compileValue_keeps [OF c1] i1 c3]
        show ?thesis unfolding s' .
      next
        case (IndexAddr a X Idx)
        from A None IndexAddr obtain x s1 y s2 s3 where
          c1: "compileValue ext X s = Inr (x, s1)" and
          c2: "compileValue ext Idx s1 = Inr (y, s2)" and
          c3: "emit (Op_IndexAddr x y) s2 = Inr (e, s3)" and
          s': "s' = s3\<lparr>bvals := (bvals s3)(iv \<mapsto> e)\<rparr>"
          by (auto simp: compileInstrAndValue.simps dest!: cacheRet_Inr split: sum.splits prod.splits)
        from "1.IH"(6) [OF None IndexAddr] c1 have i1: "fresh s s1" by auto
        from "1.IH"(7) [OF None IndexAddr c1 refl] c2 have i2: "fresh s1 s2" by auto
        note k1 = compileValue_keeps [OF c1] and k2 = compileValue_keeps [OF c2]
        from fresh_cache_step [OF keeps_trans [OF k1 k2] fresh_trans [OF k1 k2 i1 i2] c3]
        show ?thesis unfolding s' .
      next
        case (Alloc a t heap)
        from A None Alloc obtain s3 where
          c3: "emit (Op_Alloc (progType ext t) heap) s = Inr (e, s3)" and
          s': "s' = s3\<lparr>bvals := (bvals s3)(iv \<mapsto> e)\<rparr>"
          by (auto simp: compileInstrAndValue.simps dest!: cacheRet_Inr split: sum.splits prod.splits)
        from fresh_cache_step [OF keeps_refl fresh_refl c3]
        show ?thesis unfolding s' .
      next
        case (OtherIV a k)
        with A None show ?thesis by (simp add: compileInstrAndValue.simps)
      qed
    qed
  qed
next
  case (2 ext v s)
  show ?case
  proof (cases v)
    case (InstrVal iv)
    from "2.IH" [OF InstrVal] show ?thesis
      by (auto simp: compileValue.simps InstrVal)
  qed (auto simp: compileValue.simps fnParam_def funcOf_def varOf_def fresh_refl
            split: option.splits sum.splits)
next
  case (3 ext vals hv s)
  show ?case
  proof (cases "int (length vals) - hv < 0")
    case True then show ?thesis by (simp add: compileValues.simps)
  next
    case False
    from "3.IH" [OF refl False] show ?thesis
      using False by (auto simp: compileValues.simps Let_def split: sum.splits prod.splits if_splits)
  qed
next
  case (4 ext vs s)
  show ?case by (simp add: fresh_refl)
next
  case (5 ext k s)
  show ?case by simp
next
  case (6 ext v vs k s)
  show ?case
  proof (intro allI impI)
    fix es s' assume A: "compileValuesLoop ext (v # vs) (Suc k) s = Inr (es, s')"
    then obtain x s1 xs where
      c1: "compileValue ext v s = Inr (x, s1)" and
      c2: "compileValuesLoop ext vs k s1 = Inr (xs, s')"
      by (auto split: sum.splits prod.splits)
    from "6.IH"(1) c1 have i1: "fresh s s1" by auto
    from "6.IH"(2) [OF c1 refl] c2 have i2: "fresh s1 s'" by auto
    from fresh_trans [OF compileValue_keeps [OF c1] compileValuesLoop_keeps [OF c2] i1 i2]
    show "fresh s s'" .
  qed
qed

lemma emit_fresh: "emit ope s = Inr (e, s') \<Longrightarrow> fresh s s'"
  using emit_frame [of ope s e s'] by (simp add: fresh_def)

lemma compileInstr_fresh: "compileInstr ext instr s = Inr s' \<Longrightarrow> fresh s s'"
proof (cases instr)
  case (IV iv)
  assume "compileInstr ext instr s = Inr s'"
  with IV show ?thesis
    using compile_fresh(1) by (auto split: sum.splits prod.splits)
next
  case (Store Addr Val)
  assume "compileInstr ext instr s = Inr s'"
  with Store obtain ptr s1 val s2 r where
    c1: "compileValue ext Addr s = Inr (ptr, s1)" and c2: "compileValue ext Val s1 = Inr (val, s2)"
    and c3: "emit (Op_Store ptr val) s2 = Inr (r, s')"
    by (auto split: sum.splits prod.splits)
  note k1 = compileValue_keeps [OF c1] and k2 = compileValue_keeps [OF c2]
  from compile_fresh(2) c1 c2 have "fresh s s1" "fresh s1 s2" by blast+
  from fresh_trans [OF keeps_trans [OF k1 k2] emit_keeps [OF c3]
         fresh_trans [OF k1 k2 this] emit_fresh [OF c3]]
  show ?thesis .
next
  case (Jump succs)
  assume "compileInstr ext instr s = Inr s'"
  with Jump show ?thesis
    by (auto split: sum.splits prod.splits if_splits dest: emit_fresh)
next
  case (Return Results)
  assume "compileInstr ext instr s = Inr s'"
  with Return obtain results s1 r where
    c1: "compileValuesLoop ext Results (length Results) s = Inr (results, s1)" and
    c3: "emit (Op_Return results) s1 = Inr (r, s')"
    by (auto split: sum.splits prod.splits)
  from compile_fresh(4) c1 have "fresh s s1" by blast
  from fresh_trans [OF compileValuesLoop_keeps [OF c1] emit_keeps [OF c3] this emit_fresh [OF c3]]
  show ?thesis .
next
  case (IfInstr Cond succs)
  assume "compileInstr ext instr s = Inr s'"
  with IfInstr obtain cond s1 thenb elseb r where
    c1: "compileValue ext Cond s = Inr (cond, s1)" and
    c3: "emit (Op_If cond thenb elseb) s1 = Inr (r, s')"
    by (auto split: sum.splits prod.splits if_splits)
  from compile_fresh(2) c1 have "fresh s s1" by blast
  from fresh_trans [OF compileValue_keeps [OF c1] emit_keeps [OF c3] this emit_fresh [OF c3]]
  show ?thesis .
next
  case (OtherInstr k)
  assume "compileInstr ext instr s = Inr s'"
  with OtherInstr show ?thesis by simp
qed

lemma compileInstrs_fresh: "compileInstrs ext instrs s = Inr s' \<Longrightarrow> fresh s s'"
proof (induction instrs arbitrary: s)
  case Nil
  then show ?case by (simp add: fresh_refl)
next
  case (Cons instr rest)
  then obtain s1 where c1: "compileInstr ext instr s = Inr s1"
    and c2: "compileInstrs ext rest s1 = Inr s'"
    by (auto split: sum.splits)
  from fresh_trans [OF compileInstr_keeps [OF c1] compileInstrs_keeps [OF c2]
         compileInstr_fresh [OF c1] Cons.IH [OF c2]]
  show ?case .
qed

lemma callInit_bvals: "callInit s = Inr s' \<Longrightarrow> bvals s' = bvals s"
  by (auto simp: callInit_def split: option.splits sum.splits prod.splits dest: emit_frame)

lemma compileBlock_sweep:
  assumes "compileBlock ext block doInit s = Inr (ret, s')"
  shows "\<exists>s3. bvals s3 = Map.empty \<and> b_blk s3 = Some ret
           \<and> (if doInit then callInit (s\<lparr>b_blk := Some ret, bvals := Map.empty\<rparr>) = Inr s3
               else s3 = s\<lparr>b_blk := Some ret, bvals := Map.empty\<rparr>)
           \<and> compileInstrs ext (Instrs block) s3 = Inr s'"
proof -
  from compileBlock_Inr [OF assms] obtain s3 where
    a: "(if doInit then callInit (s\<lparr>b_blk := Some ret, bvals := Map.empty\<rparr>)
               else Inr (s\<lparr>b_blk := Some ret, bvals := Map.empty\<rparr>)) = Inr s3"
    and b: "compileInstrs ext (Instrs block) s3 = Inr s'" by blast
  show ?thesis
  proof (cases doInit)
    case True
    with a have c: "callInit (s\<lparr>b_blk := Some ret, bvals := Map.empty\<rparr>) = Inr s3" by simp
    from callInit_bvals [OF c] keeps_b_blk [OF callInit_keeps [OF c]] c b True
    show ?thesis by auto
  next
    case False
    with a b show ?thesis by auto
  qed
qed

lemma compileBlock_cache_fresh:
  assumes c: "compileBlock ext block doInit s = Inr (ret, s')" and k: "bvals s' k = Some e"
  shows "\<exists>j. e = InstrExpr (fst ret) (snd ret) j
           \<and> length (opsAt s ret) \<le> j \<and> j < length (opsAt s' ret)"
proof -
  from compileBlock_sweep [OF c] obtain s3 where
    e3: "bvals s3 = Map.empty" and b3: "b_blk s3 = Some ret"
    and i: "if doInit then callInit (s\<lparr>b_blk := Some ret, bvals := Map.empty\<rparr>) = Inr s3
               else s3 = s\<lparr>b_blk := Some ret, bvals := Map.empty\<rparr>"
    and sw: "compileInstrs ext (Instrs block) s3 = Inr s'" by blast
  have l: "length (opsAt s ret) \<le> length (opsAt s3 ret)"
  proof (cases doInit)
    case True
    with i have "callInit (s\<lparr>b_blk := Some ret, bvals := Map.empty\<rparr>) = Inr s3" by simp
    from keeps_length [OF callInit_keeps [OF this], of ret] show ?thesis by simp
  next
    case False
    with i show ?thesis by simp
  qed
  from compileInstrs_fresh [OF sw] k e3 b3 obtain j where
    "e = InstrExpr (fst ret) (snd ret) j" "length (opsAt s3 ret) \<le> j" "j < length (opsAt s' ret)"
    unfolding fresh_def by (cases ret) fastforce
  with l show ?thesis by auto
qed


lemma compileBlock_plain_returns:
  assumes "fnBlock (Index block) s = Inr ret"
    and "compileInstrs ext (Instrs block) (s\<lparr>b_blk := Some ret, bvals := Map.empty\<rparr>) = Inr t"
  shows "compileBlock ext block False s = Inr (ret, t)"
  using assms by (simp add: compileBlock_def)

text \<open>
  C6. Within one block an instruction that is a value is lowered at most once. A
  resolution that finds the instruction in the block-value map returns the cached
  expression and leaves the context as it is; a lowering that succeeds enters its
  result in the map (the skipped call to \<open>unsafe.init\<close> apart, which changes
  nothing), so resolving the instruction again returns the same expression and emits
  nothing; an entry stays in the map, unchanged, while the later instructions of the
  block are lowered. \<open>compileBlock\<close> replaces the map by an empty one before it
  lowers anything: what it does is independent of the map it is called with, the sweep
  over the instructions starts from the empty map (and the block is built whenever
  that sweep succeeds), and every expression in the map it leaves behind names an
  operation that this very call appended to this block, so that no expression cached
  for an earlier block is left.
\<close>

theorem block_value_cache:
  "(bvals s iv = Some v \<longrightarrow> compileInstrAndValue ext iv s = Inr (v, s))
   \<and> (compileInstrAndValue ext iv s = Inr (e, s') \<longrightarrow>
        compileInstrAndValue ext iv s' = Inr (e, s')
        \<and> (bvals s' iv = Some e \<or> s' = s))
   \<and> (bvals s iv = Some v \<and> compileInstrs ext instrs s = Inr s2 \<longrightarrow>
        bvals s2 iv = Some v \<and> compileInstrAndValue ext iv s2 = Inr (v, s2))
   \<and> compileBlock ext block doInit (s\<lparr>bvals := m\<rparr>) = compileBlock ext block doInit s
   \<and> (compileBlock ext block doInit s = Inr (ret, t) \<longrightarrow>
        (\<exists>s3. bvals s3 = Map.empty \<and> b_blk s3 = Some ret
           \<and> (if doInit then callInit (s\<lparr>b_blk := Some ret, bvals := Map.empty\<rparr>) = Inr s3
               else s3 = s\<lparr>b_blk := Some ret, bvals := Map.empty\<rparr>)
           \<and> compileInstrs ext (Instrs block) s3 = Inr t))
   \<and> (fnBlock (Index block) s = Inr ret
        \<and> compileInstrs ext (Instrs block) (s\<lparr>b_blk := Some ret, bvals := Map.empty\<rparr>) = Inr t \<longrightarrow>
        compileBlock ext block False s = Inr (ret, t))
   \<and> (compileBlock ext block doInit s = Inr (ret, t) \<and> bvals t k = Some x \<longrightarrow>
        (\<exists>j. x = InstrExpr (fst ret) (snd ret) j
           \<and> length (opsAt s ret) \<le> j \<and> j < length (opsAt t ret)))"
proof (intro conjI impI)
  assume "bvals s iv = Some v"
  then show "compileInstrAndValue ext iv s = Inr (v, s)"
    by (rule compileInstrAndValue_cached)
next
  assume "compileInstrAndValue ext iv s = Inr (e, s')"
  then show "compileInstrAndValue ext iv s' = Inr (e, s')"
    by (rule compileInstrAndValue_again)
next
  assume "compileInstrAndValue ext iv s = Inr (e, s')"
  from compileInstrAndValue_caches [OF this]
  show "bvals s' iv = Some e \<or> s' = s" by blast
next
  assume a: "bvals s iv = Some v \<and> compileInstrs ext instrs s = Inr s2"
  then have "keeps s s2" using compileInstrs_keeps by blast
  with a show c: "bvals s2 iv = Some v" using keeps_cached by blast
  then show "compileInstrAndValue ext iv s2 = Inr (v, s2)"
    by (rule compileInstrAndValue_cached)
next
  show "compileBlock ext block doInit (s\<lparr>bvals := m\<rparr>) = compileBlock ext block doInit s"
    by (rule compileBlock_fresh_cache)
next
  assume "compileBlock ext block doInit s = Inr (ret, t)"
  then show "\<exists>s3. bvals s3 = Map.empty \<and> b_blk s3 = Some ret
           \<and> (if doInit then callInit (s\<lparr>b_blk := Some ret, bvals := Map.empty\<rparr>) = Inr s3
               else s3 = s\<lparr>b_blk := Some ret, bvals := Map.empty\<rparr>)
           \<and> compileInstrs ext (Instrs block) s3 = Inr t"
    by (rule compileBlock_sweep)
next
  assume "fnBlock (Index block) s = Inr ret
        \<and> compileInstrs ext (Instrs block) (s\<lparr>b_blk := Some ret, bvals := Map.empty\<rparr>) = Inr t"
  then show "compileBlock ext block False s = Inr (ret, t)"
    using compileBlock_plain_returns by blast
next
  assume "compileBlock ext block doInit s = Inr (ret, t) \<and> bvals t k = Some x"
  then show "\<exists>j. x = InstrExpr (fst ret) (snd ret) j
           \<and> length (opsAt s ret) \<le> j \<and> j < length (opsAt t ret)"
    using compileBlock_cache_fresh by blast
qed

theorem block_value_cache_witness:
  "compileInstrAndValue ext0 alloc1 ctxA = Inr (InstrExpr 0 0 0, ctxA1)
   \<and> compileInstrAndValue ext0 alloc1 ctxA1 = Inr (InstrExpr 0 0 0, ctxA1)
   \<and> (\<exists>s2. compileInstrs ext0 users ctxA1 = Inr s2
         \<and> bvals s2 alloc1 = Some (InstrExpr 0 0 0)
         \<and> compileInstrAndValue ext0 alloc1 s2 = Inr (InstrExpr 0 0 0, s2)
         \<and> opsAt s2 (0, 0) =
             [Op_Alloc ''int'' False, Op_UnOp ''*'' (InstrExpr 0 0 0),
              Op_BinOp ''+'' (InstrExpr 0 0 0) (InstrExpr 0 0 0)])
   \<and> bvals ctxA1 alloc1 = Some (InstrExpr 0 0 0)
   \<and> (\<exists>t. compileBlock ext0 blockA False ctxA1 = Inr ((0, 0), t)
         \<and> bvals t alloc1 = Some (InstrExpr 0 0 1)
         \<and> opsAt t (0, 0) = [Op_Alloc ''int'' False, Op_Alloc ''int'' False])"
proof -
  have 1: "compileInstrAndValue ext0 alloc1 ctxA = Inr (InstrExpr 0 0 0, ctxA1)"
    by (simp add: eval_simps ctxA_def ctxA1_def alloc1_def ext0_def sig0_def)
  have 2: "bvals ctxA1 alloc1 = Some (InstrExpr 0 0 0)"
    by (simp add: ctxA1_def)
  obtain s2 where 3: "compileInstrs ext0 users ctxA1 = Inr s2"
    and 4: "opsAt s2 (0, 0) =
             [Op_Alloc ''int'' False, Op_UnOp ''*'' (InstrExpr 0 0 0),
              Op_BinOp ''+'' (InstrExpr 0 0 0) (InstrExpr 0 0 0)]"
    by (simp add: eval_simps users_def ctxA1_def alloc1_def ext0_def sig0_def)
  have 5: "fnBlock (Index blockA) ctxA1 = Inr (0, 0)"
    by (simp add: fnBlock_def blockA_def ctxA1_def)
  obtain t where 6: "compileInstrs ext0 (Instrs blockA)
                       (ctxA1\<lparr>b_blk := Some (0, 0), bvals := Map.empty\<rparr>) = Inr t"
    and 7: "bvals t alloc1 = Some (InstrExpr 0 0 1)"
    and 8: "opsAt t (0, 0) = [Op_Alloc ''int'' False, Op_Alloc ''int'' False]"
    by (simp add: eval_simps blockA_def ctxA1_def alloc1_def ext0_def sig0_def)
  note T1 = block_value_cache [of ctxA alloc1 "InstrExpr 0 0 0" ext0 "InstrExpr 0 0 0" ctxA1
      users s2 blockA False Map.empty "(0, 0)" t alloc1 "InstrExpr 0 0 1"]
  note T2 = block_value_cache [of ctxA1 alloc1 "InstrExpr 0 0 0" ext0 "InstrExpr 0 0 0" ctxA1
      users s2 blockA False Map.empty "(0, 0)" t alloc1 "InstrExpr 0 0 1"]
  from T2 5 6 have 9: "compileBlock ext0 blockA False ctxA1 = Inr ((0, 0), t)" by blast
  from T1 1 have a: "compileInstrAndValue ext0 alloc1 ctxA1 = Inr (InstrExpr 0 0 0, ctxA1)" by blast
  from T2 2 3 have b: "bvals s2 alloc1 = Some (InstrExpr 0 0 0)"
    "compileInstrAndValue ext0 alloc1 s2 = Inr (InstrExpr 0 0 0, s2)" by blast+
  from 1 a b 2 3 4 7 8 9 show ?thesis by blast
qed

section \<open>The order in which the bodies are built\<close>

lemma keeps_blockCounts: "keeps s s' \<Longrightarrow> blockCounts s' = blockCounts s"
  by (simp add: keeps_def frame_def blockCounts_def)

lemma blockCounts_upd [simp]:
  "blockCounts (s\<lparr>fn := x\<rparr>) = blockCounts s"
  "blockCounts (s\<lparr>bvals := m\<rparr>) = blockCounts s"
  "blockCounts (s\<lparr>b_blk := b\<rparr>) = blockCounts s"
  by (simp_all add: blockCounts_def)

lemma compileBlock_blockCounts:
  assumes "compileBlock ext block doInit s = Inr (ret, s')"
  shows "blockCounts s' = blockCounts s"
proof -
  from compileBlock_Inr [OF assms] obtain s3 where
    a: "(if doInit then callInit (s\<lparr>b_blk := Some ret, bvals := Map.empty\<rparr>)
               else Inr (s\<lparr>b_blk := Some ret, bvals := Map.empty\<rparr>)) = Inr s3"
    and b: "compileInstrs ext (Instrs block) s3 = Inr s'" by blast
  from a have "blockCounts s3 = blockCounts s"
    by (auto split: if_splits dest!: callInit_keeps keeps_blockCounts)
  with compileInstrs_keeps [OF b] show ?thesis by (simp add: keeps_blockCounts)
qed

lemma compileBlocks_blockCounts:
  "compileBlocks ext name i blocks s = Inr s' \<Longrightarrow> blockCounts s' = blockCounts s"
proof (induction blocks arbitrary: i s)
  case Nil
  then show ?case by simp
next
  case (Cons block rest)
  then obtain ret s1 where
    "compileBlock ext block (i = 0 \<and> name = ''main'') s = Inr (ret, s1)"
    "compileBlocks ext name (Suc i) rest s1 = Inr s'"
    by (auto split: sum.splits prod.splits)
  then show ?case using Cons.IH compileBlock_blockCounts by metis
qed

lemma blockCounts_MakeBlocks:
  "h < length (p_fns (pkg s)) \<Longrightarrow>
   blockCounts (s\<lparr>pkg := MakeBlocks h n (pkg s)\<rparr>) = (blockCounts s)[h := blockCounts s ! h + n]"
  by (simp add: blockCounts_def MakeBlocks_def map_update)

lemma runInit_blockCounts:
  assumes r: "runInit ext c s = Inr s'" and h: "c_fn c < length (p_fns (pkg s))"
  shows "blockCounts s' = (blockCounts s)[c_fn c := blockCounts s ! c_fn c + length (Blocks (c_f c))]"
proof (cases "length (Blocks (c_f c)) = 0")
  case True
  with r have "s' = s\<lparr>fn := None\<rparr>" by (auto simp: runInit_def)
  with True show ?thesis by simp
next
  case False
  define s1 where "s1 = s\<lparr>fn := Some (c_fn c)\<rparr>"
  define s2 where "s2 = s1\<lparr>pkg := MakeBlocks (c_fn c) (length (Blocks (c_f c))) (pkg s1)\<rparr>"
  from r False obtain s4 where
    b: "compileBlocks ext (c_name c) 0 (Blocks (c_f c)) (s2\<lparr>b_blk := None\<rparr>) = Inr s4"
    and s': "s' = s4\<lparr>fn := None\<rparr>"
    by (auto simp: runInit_def Let_def s1_def s2_def split: sum.splits)
  have "c_fn c < length (p_fns (pkg s1))" using h by (simp add: s1_def)
  from blockCounts_MakeBlocks [OF this, of "length (Blocks (c_f c))"]
  have "blockCounts s2 = (blockCounts s)[c_fn c := blockCounts s ! c_fn c + length (Blocks (c_f c))]"
    by (simp add: s2_def s1_def)
  with compileBlocks_blockCounts [OF b] show ?thesis by (simp add: s')
qed

lemma runInits_append:
  "runInits ext (xs @ ys) s =
     (case runInits ext xs s of Inl e \<Rightarrow> Inl e | Inr s1 \<Rightarrow> runInits ext ys s1)"
  by (induction xs arbitrary: s) (auto split: sum.splits)

lemma runInits_blockCounts:
  assumes "runInits ext (map (closureOf ext) (enumerate n fs)) s = Inr s'"
    and "n + length fs \<le> length (p_fns (pkg s))" and "h < length (p_fns (pkg s))"
  shows "blockCounts s' ! h =
           blockCounts s ! h + (if n \<le> h \<and> h < n + length fs then length (Blocks (fs ! (h - n))) else 0)"
  using assms
proof (induction fs arbitrary: n s)
  case Nil
  then show ?case by auto
next
  case (Cons f fs)
  let ?c = "closureOf ext (n, f)"
  from Cons.prems(1) obtain s1 where
    r1: "runInit ext ?c s = Inr s1" and
    r2: "runInits ext (map (closureOf ext) (enumerate (Suc n) fs)) s1 = Inr s'"
    by (auto split: sum.splits)
  have cf: "c_fn ?c = n" "c_f ?c = f" by (simp_all add: closureOf_def)
  from Cons.prems(2) have n: "n < length (p_fns (pkg s))" by simp
  from runInit_blockCounts [OF r1] n
  have b1: "blockCounts s1 = (blockCounts s)[n := blockCounts s ! n + length (Blocks f)]"
    by (simp add: cf)
  have len: "length (p_fns (pkg s1)) = length (p_fns (pkg s))"
    using arg_cong [OF b1, of length] by (simp add: blockCounts_def)
  from Cons.IH [OF r2] Cons.prems(2,3) len
  have "blockCounts s' ! h = blockCounts s1 ! h
          + (if Suc n \<le> h \<and> h < Suc n + length fs then length (Blocks (fs ! (h - Suc n))) else 0)"
    by simp
  moreover have "length (blockCounts s) = length (p_fns (pkg s))" by (simp add: blockCounts_def)
  ultimately show ?case
    using n Cons.prems(3) by (auto simp: b1 nth_list_update Suc_diff_le nth_Cons')
qed

lemma take_enumerate: "take k (enumerate n xs) = enumerate n (take k xs)"
  by (simp add: enumerate_eq_zip take_zip min_def) 

lemma built_so_far:
  assumes d: "declareMembers ext ms (newContext spkg) = Inr ctx"
    and r: "runInits ext (take k (inits ctx)) ctx = Inr c"
    and h: "h < length (nonGenericFuncs ms)"
  shows "length (f_blks (p_fns (pkg c) ! h)) =
           (if h < k then length (Blocks (nonGenericFuncs ms ! h)) else 0)"
proof -
  let ?fs = "nonGenericFuncs ms"
  have i: "inits ctx = map (closureOf ext) (enumerate 0 ?fs)"
    using declared_fields(1) [OF d] by (simp add: closureOf_def)
  have p: "p_fns (pkg ctx) =
           map (\<lambda>f. \<lparr>f_name = declName ext f, f_sig = fn_Signature (info f), f_blks = []\<rparr>) ?fs"
    by (rule declared_fields(2) [OF d])
  have r': "runInits ext (map (closureOf ext) (enumerate 0 (take k ?fs))) ctx = Inr c"
    using r by (simp add: i take_map take_enumerate)
  have l: "length (p_fns (pkg ctx)) = length ?fs" by (simp add: p)
  from runInits_blockCounts [OF r', of h] h l
  have "blockCounts c ! h = blockCounts ctx ! h
          + (if h < length (take k ?fs) then length (Blocks (take k ?fs ! h)) else 0)"
    by simp
  moreover have "blockCounts ctx ! h = 0" using h by (simp add: blockCounts_def p)
  moreover have "length (p_fns (pkg c)) = length (p_fns (pkg ctx))"
    using runInits_decls [OF r] by (auto simp: decls_def dest: map_eq_imp_length_eq)
  ultimately show ?thesis using h l by (auto simp: blockCounts_def)
qed

section \<open>The handle of a declared member\<close>

lemma declFuncs_idx_other:
  "n \<notin> set (map (declName ext) fs) \<Longrightarrow>
   p_fnIdx (pkg (declFuncs ext fs s)) n = p_fnIdx (pkg s) n"
  by (induction fs arbitrary: s) (auto simp: declFuncs_Cons compileFunc_eq declFuncs_def)

lemma declFuncs_idx:
  "distinct (map (declName ext) fs) \<Longrightarrow> i < length fs \<Longrightarrow>
   p_fnIdx (pkg (declFuncs ext fs s)) (declName ext (fs ! i)) = Some (length (p_fns (pkg s)) + i)"
proof (induction fs arbitrary: s i)
  case Nil
  then show ?case by simp
next
  case (Cons f fs)
  show ?case
  proof (cases i)
    case 0
    from Cons.prems(1) have "declName ext f \<notin> set (map (declName ext) fs)" by simp
    from declFuncs_idx_other [OF this] show ?thesis
      by (simp add: 0 declFuncs_Cons compileFunc_eq)
  next
    case (Suc j)
    with Cons.prems have "distinct (map (declName ext) fs)" "j < length fs" by simp_all
    from Cons.IH [OF this, of "compileFunc ext f s"] show ?thesis
      by (simp add: Suc declFuncs_Cons) (simp add: compileFunc_eq)
  qed
qed

lemma declGlobals_idx_other:
  "n \<notin> set (map (globalName ext) gs) \<Longrightarrow>
   p_varIdx (pkg (declGlobals ext gs s)) n = p_varIdx (pkg s) n"
  by (induction gs arbitrary: s) (auto simp: declGlobals_Cons compileGlobal_eq declGlobals_def)

lemma declGlobals_idx:
  "distinct (map (globalName ext) gs) \<Longrightarrow> i < length gs \<Longrightarrow>
   p_varIdx (pkg (declGlobals ext gs s)) (globalName ext (gs ! i)) = Some (length (p_vars (pkg s)) + i)"
proof (induction gs arbitrary: s i)
  case Nil
  then show ?case by simp
next
  case (Cons g gs)
  show ?case
  proof (cases i)
    case 0
    from Cons.prems(1) have "globalName ext g \<notin> set (map (globalName ext) gs)" by simp
    from declGlobals_idx_other [OF this] show ?thesis
      by (simp add: 0 declGlobals_Cons compileGlobal_eq)
  next
    case (Suc j)
    with Cons.prems have "distinct (map (globalName ext) gs)" "j < length gs" by simp_all
    from Cons.IH [OF this, of "compileGlobal ext g s"] show ?thesis
      by (simp add: Suc declGlobals_Cons) (simp add: compileGlobal_eq)
  qed
qed

lemma own_function_handle:
  assumes d: "declareMembers ext ms (newContext spkg) = Inr ctx"
    and c: "decls c = decls ctx"
    and n: "distinct (map (declName ext) (nonGenericFuncs ms))" and h: "h < length (nonGenericFuncs ms)"
  shows "compileValue ext (Function (info (nonGenericFuncs ms ! h))) c = Inr (FnExpr h, c)"
proof -
  have "p_fnIdx (pkg ctx) (declName ext (nonGenericFuncs ms ! h)) = Some h"
    unfolding declared_context [OF d]
    using declFuncs_idx [OF n h, of "newContext spkg"]
    by (simp add: declGlobals_fields newContext_def)
  with c have "p_fnIdx (pkg c) (declName ext (nonGenericFuncs ms ! h)) = Some h"
    by (simp add: decls_def)
  then show ?thesis by (rule resolve_Function)
qed

lemma own_global_handle:
  assumes d: "declareMembers ext ms (newContext spkg) = Inr ctx"
    and c: "decls c = decls ctx"
    and n: "distinct (map (globalName ext) (globalsOf ms))" and h: "h < length (globalsOf ms)"
  shows "compileValue ext (Global (globalsOf ms ! h)) c = Inr (GlobalExpr h, c)"
proof -
  have "p_varIdx (pkg ctx) (globalName ext (globalsOf ms ! h)) = Some h"
    unfolding declared_context [OF d]
    using declGlobals_idx [OF n h, of "declFuncs ext (nonGenericFuncs ms) (newContext spkg)"]
    by (simp add: declFuncs_fields newContext_def)
  with c have "p_varIdx (pkg c) (globalName ext (globalsOf ms ! h)) = Some h"
    by (simp add: decls_def)
  then show ?thesis by (rule resolve_Global)
qed


lemma NewPackage_pkgG: "NewPackage ext0 pkgG = Inr pG"
  by (simp only: NewPackage_def sortedMembers_pkgG)
     (simp add: pkg_eval_simps eval_simps fB_def fB_info_def genericF_def ext0_def sig0_def
        pkgG_def pG_def)

text \<open>
  C2, refuted as stated: \<open>Map\<close>, a function with type parameters, is a top-level
  member of the package; the body of \<open>B\<close> is built, and \<open>Map\<close> is declared neither
  before nor after.
\<close>

theorem undeclared_member_counterexample:
  "(''Map'', MFunction genericF) \<in> set (Members pkgG)
   \<and> NewPackage ext0 pkgG = Inr pG
   \<and> map f_name (p_fns pG) = [''main.B'']
   \<and> map f_blks (p_fns pG) = [[[Op_Return []]]]
   \<and> p_fnIdx pG (declName ext0 genericF) = None"
  using NewPackage_pkgG
  by (simp add: pkgG_def pG_def declName_def genericF_def ext0_def)

text \<open>
  C2, amended. A type member makes the declare loop panic. Otherwise, when the loop
  over the sorted members has ended, every function without type parameters and every
  global is declared (functions with type parameters are not), in the order of the
  sorted members, and no body is built: every declared function is without blocks,
  nothing is lowered, and the closures registered are those of the declared functions
  in that same order. \<open>NewPackage\<close> then runs these closures in the order of their
  registration: when the first \<open>k\<close> of them have run, exactly the first \<open>k\<close> declared
  functions have their blocks, and the remaining closures run from that context.
  Running closures and lowering instructions leave the declarations as they are, and
  in every context with these declarations a reference to a declared function or
  global of the package, whether declared before or after the function being built,
  resolves to the handle registered under its target name; if the target names of the
  declared functions (of the globals) are pairwise distinct, this is the
  function's (global's) own handle, the one its closure builds into.
\<close>

theorem declare_before_build:
  "(if \<exists>m \<in> set (sortedMembers spkg). isType m
    then NewPackage ext spkg = Inl Todo
    else (\<exists>ctx. declareMembers ext (sortedMembers spkg) (newContext spkg) = Inr ctx
        \<and> inits ctx = map (\<lambda>(i, f). \<lparr>c_name = declName ext f, c_fn = i, c_f = f\<rparr>)
                       (enumerate 0 (nonGenericFuncs (sortedMembers spkg)))
        \<and> p_fns (pkg ctx) =
          map (\<lambda>f. \<lparr>f_name = declName ext f, f_sig = fn_Signature (info f), f_blks = []\<rparr>)
              (nonGenericFuncs (sortedMembers spkg))
        \<and> map v_name (p_vars (pkg ctx)) = map (globalName ext) (globalsOf (sortedMembers spkg))
        \<and> fn ctx = None
        \<and> b_blk ctx = None
        \<and> bvals ctx = Map.empty
        \<and> NewPackage ext spkg =
          (case runInits ext (inits ctx) ctx of Inl e \<Rightarrow> Inl e | Inr c \<Rightarrow> Inr (pkg c))
        \<and> runInits ext (inits ctx) ctx =
          (case runInits ext (take k (inits ctx)) ctx of
             Inl e \<Rightarrow> Inl e
           | Inr c \<Rightarrow> runInits ext (drop k (inits ctx)) c)
        \<and> (runInits ext (take k (inits ctx)) ctx = Inr c \<longrightarrow>
          decls c = decls ctx
          \<and> (\<forall>h. h < length (nonGenericFuncs (sortedMembers spkg)) \<longrightarrow>
                length (f_blks (p_fns (pkg c) ! h)) =
                  (if h < k then length (Blocks (nonGenericFuncs (sortedMembers spkg) ! h)) else 0)))
        \<and> (compileInstr ext instr c = Inr c' \<longrightarrow> decls c' = decls c)
        \<and> (decls c = decls ctx \<and> f \<in> set (nonGenericFuncs (sortedMembers spkg)) \<longrightarrow>
          (\<exists>h. compileValue ext (Function (info f)) c = Inr (FnExpr h, c)
             \<and> h < length (p_fns (pkg ctx))
             \<and> f_name (p_fns (pkg ctx) ! h) = declName ext f))
        \<and> (decls c = decls ctx \<and> g \<in> set (globalsOf (sortedMembers spkg)) \<longrightarrow>
          (\<exists>h. compileValue ext (Global g) c = Inr (GlobalExpr h, c)
             \<and> h < length (p_vars (pkg ctx))
             \<and> v_name (p_vars (pkg ctx) ! h) = globalName ext g))
        \<and> (decls c = decls ctx \<and> distinct (map (declName ext) (nonGenericFuncs (sortedMembers spkg)))
          \<and> i < length (nonGenericFuncs (sortedMembers spkg)) \<longrightarrow>
          compileValue ext (Function (info (nonGenericFuncs (sortedMembers spkg) ! i))) c = Inr (FnExpr i, c)
          \<and> c_fn (inits ctx ! i) = i \<and> c_f (inits ctx ! i) = nonGenericFuncs (sortedMembers spkg) ! i)
        \<and> (decls c = decls ctx \<and> distinct (map (globalName ext) (globalsOf (sortedMembers spkg)))
          \<and> j < length (globalsOf (sortedMembers spkg)) \<longrightarrow>
          compileValue ext (Global (globalsOf (sortedMembers spkg) ! j)) c = Inr (GlobalExpr j, c)
          \<and> v_name (p_vars (pkg ctx) ! j) = globalName ext (globalsOf (sortedMembers spkg) ! j))))"
proof (cases "\<exists>m \<in> set (sortedMembers spkg). isType m")
  case True
  then have "NewPackage ext spkg = Inl Todo"
    by (simp add: NewPackage_def declareMembers_closed)
  with True show ?thesis by simp
next
  case False
  then obtain ctx where d: "declareMembers ext (sortedMembers spkg) (newContext spkg) = Inr ctx"
    by (simp add: declareMembers_closed)
  note f = declared_fields [OF d]
  have A: "inits ctx = map (\<lambda>(i, f). \<lparr>c_name = declName ext f, c_fn = i, c_f = f\<rparr>)
                       (enumerate 0 (nonGenericFuncs (sortedMembers spkg)))"
    by (rule f(1))
  have B: "p_fns (pkg ctx) =
          map (\<lambda>f. \<lparr>f_name = declName ext f, f_sig = fn_Signature (info f), f_blks = []\<rparr>)
              (nonGenericFuncs (sortedMembers spkg))"
    by (rule f(2))
  have C: "map v_name (p_vars (pkg ctx)) = map (globalName ext) (globalsOf (sortedMembers spkg))"
    by (rule f(3))
  have D1: "fn ctx = None"
    by (rule f(4))
  have D2: "b_blk ctx = None"
    by (rule f(5))
  have D3: "bvals ctx = Map.empty"
    by (rule f(6))
  have E: "NewPackage ext spkg =
          (case runInits ext (inits ctx) ctx of Inl e \<Rightarrow> Inl e | Inr c \<Rightarrow> Inr (pkg c))"
    by (simp add: NewPackage_def d)
  have F: "runInits ext (inits ctx) ctx =
          (case runInits ext (take k (inits ctx)) ctx of
             Inl e \<Rightarrow> Inl e
           | Inr c \<Rightarrow> runInits ext (drop k (inits ctx)) c)"
    using runInits_append [of ext "take k (inits ctx)" "drop k (inits ctx)" ctx] by simp
  have G: "(runInits ext (take k (inits ctx)) ctx = Inr c \<longrightarrow>
          decls c = decls ctx
          \<and> (\<forall>h. h < length (nonGenericFuncs (sortedMembers spkg)) \<longrightarrow>
                length (f_blks (p_fns (pkg c) ! h)) =
                  (if h < k then length (Blocks (nonGenericFuncs (sortedMembers spkg) ! h)) else 0)))"
    using runInits_decls built_so_far [OF d] by blast
  have H: "(compileInstr ext instr c = Inr c' \<longrightarrow> decls c' = decls c)"
    using compileInstr_decls by blast
  have I: "(decls c = decls ctx \<and> f \<in> set (nonGenericFuncs (sortedMembers spkg)) \<longrightarrow>
          (\<exists>h. compileValue ext (Function (info f)) c = Inr (FnExpr h, c)
             \<and> h < length (p_fns (pkg ctx))
             \<and> f_name (p_fns (pkg ctx) ! h) = declName ext f))"
    using declared_function_resolves [OF d] by blast
  have J: "(decls c = decls ctx \<and> g \<in> set (globalsOf (sortedMembers spkg)) \<longrightarrow>
          (\<exists>h. compileValue ext (Global g) c = Inr (GlobalExpr h, c)
             \<and> h < length (p_vars (pkg ctx))
             \<and> v_name (p_vars (pkg ctx) ! h) = globalName ext g))"
    using declared_global_resolves [OF d] by blast
  have K: "(decls c = decls ctx \<and> distinct (map (declName ext) (nonGenericFuncs (sortedMembers spkg)))
          \<and> i < length (nonGenericFuncs (sortedMembers spkg)) \<longrightarrow>
          compileValue ext (Function (info (nonGenericFuncs (sortedMembers spkg) ! i))) c = Inr (FnExpr i, c)
          \<and> c_fn (inits ctx ! i) = i \<and> c_f (inits ctx ! i) = nonGenericFuncs (sortedMembers spkg) ! i)"
    using own_function_handle [OF d] by (auto simp: f(1) nth_enumerate_eq)
  have L: "(decls c = decls ctx \<and> distinct (map (globalName ext) (globalsOf (sortedMembers spkg)))
          \<and> j < length (globalsOf (sortedMembers spkg)) \<longrightarrow>
          compileValue ext (Global (globalsOf (sortedMembers spkg) ! j)) c = Inr (GlobalExpr j, c)
          \<and> v_name (p_vars (pkg ctx) ! j) = globalName ext (globalsOf (sortedMembers spkg) ! j))"
  proof (intro impI conjI)
    assume a: "decls c = decls ctx \<and> distinct (map (globalName ext) (globalsOf (sortedMembers spkg)))
          \<and> j < length (globalsOf (sortedMembers spkg))"
    then show "compileValue ext (Global (globalsOf (sortedMembers spkg) ! j)) c = Inr (GlobalExpr j, c)"
      using own_global_handle [OF d] by blast
    from f(3) have "length (p_vars (pkg ctx)) = length (globalsOf (sortedMembers spkg))"
      by (auto dest: map_eq_imp_length_eq)
    with a have "map v_name (p_vars (pkg ctx)) ! j = v_name (p_vars (pkg ctx) ! j)"
      "map (globalName ext) (globalsOf (sortedMembers spkg)) ! j
         = globalName ext (globalsOf (sortedMembers spkg) ! j)"
      by simp_all
    with f(3) show "v_name (p_vars (pkg ctx) ! j) = globalName ext (globalsOf (sortedMembers spkg) ! j)"
      by simp
  qed
  have "\<exists>ctx. declareMembers ext (sortedMembers spkg) (newContext spkg) = Inr ctx
        \<and> inits ctx = map (\<lambda>(i, f). \<lparr>c_name = declName ext f, c_fn = i, c_f = f\<rparr>)
                       (enumerate 0 (nonGenericFuncs (sortedMembers spkg)))
        \<and> p_fns (pkg ctx) =
          map (\<lambda>f. \<lparr>f_name = declName ext f, f_sig = fn_Signature (info f), f_blks = []\<rparr>)
              (nonGenericFuncs (sortedMembers spkg))
        \<and> map v_name (p_vars (pkg ctx)) = map (globalName ext) (globalsOf (sortedMembers spkg))
        \<and> fn ctx = None
        \<and> b_blk ctx = None
        \<and> bvals ctx = Map.empty
        \<and> NewPackage ext spkg =
          (case runInits ext (inits ctx) ctx of Inl e \<Rightarrow> Inl e | Inr c \<Rightarrow> Inr (pkg c))
        \<and> runInits ext (inits ctx) ctx =
          (case runInits ext (take k (inits ctx)) ctx of
             Inl e \<Rightarrow> Inl e
           | Inr c \<Rightarrow> runInits ext (drop k (inits ctx)) c)
        \<and> (runInits ext (take k (inits ctx)) ctx = Inr c \<longrightarrow>
          decls c = decls ctx
          \<and> (\<forall>h. h < length (nonGenericFuncs (sortedMembers spkg)) \<longrightarrow>
                length (f_blks (p_fns (pkg c) ! h)) =
                  (if h < k then length (Blocks (nonGenericFuncs (sortedMembers spkg) ! h)) else 0)))
        \<and> (compileInstr ext instr c = Inr c' \<longrightarrow> decls c' = decls c)
        \<and> (decls c = decls ctx \<and> f \<in> set (nonGenericFuncs (sortedMembers spkg)) \<longrightarrow>
          (\<exists>h. compileValue ext (Function (info f)) c = Inr (FnExpr h, c)
             \<and> h < length (p_fns (pkg ctx))
             \<and> f_name (p_fns (pkg ctx) ! h) = declName ext f))
        \<and> (decls c = decls ctx \<and> g \<in> set (globalsOf (sortedMembers spkg)) \<longrightarrow>
          (\<exists>h. compileValue ext (Global g) c = Inr (GlobalExpr h, c)
             \<and> h < length (p_vars (pkg ctx))
             \<and> v_name (p_vars (pkg ctx) ! h) = globalName ext g))
        \<and> (decls c = decls ctx \<and> distinct (map (declName ext) (nonGenericFuncs (sortedMembers spkg)))
          \<and> i < length (nonGenericFuncs (sortedMembers spkg)) \<longrightarrow>
          compileValue ext (Function (info (nonGenericFuncs (sortedMembers spkg) ! i))) c = Inr (FnExpr i, c)
          \<and> c_fn (inits ctx ! i) = i \<and> c_f (inits ctx ! i) = nonGenericFuncs (sortedMembers spkg) ! i)
        \<and> (decls c = decls ctx \<and> distinct (map (globalName ext) (globalsOf (sortedMembers spkg)))
          \<and> j < length (globalsOf (sortedMembers spkg)) \<longrightarrow>
          compileValue ext (Global (globalsOf (sortedMembers spkg) ! j)) c = Inr (GlobalExpr j, c)
          \<and> v_name (p_vars (pkg ctx) ! j) = globalName ext (globalsOf (sortedMembers spkg) ! j))"
    by (rule exI [of _ ctx]) (intro conjI; fact)
  with False show ?thesis by simp
qed

theorem declare_before_build_witness:
  "\<not> (\<exists>m \<in> set (sortedMembers pkgAB). isType m)
   \<and> (\<exists>ctx. declareMembers ext0 (sortedMembers pkgAB) (newContext pkgAB) = Inr ctx
     \<and> map f_name (p_fns (pkg ctx)) = [''main.A'', ''main.B'']
     \<and> (\<forall>lf \<in> set (p_fns (pkg ctx)). f_blks lf = [])
     \<and> distinct (map (declName ext0) (nonGenericFuncs (sortedMembers pkgAB)))
     \<and> nonGenericFuncs (sortedMembers pkgAB) ! 1 = fB
     \<and> compileValue ext0 (Function (info fB)) ctx = Inr (FnExpr 1, ctx)
     \<and> compileValue ext0 (Global gV) ctx = Inr (GlobalExpr 0, ctx)
     \<and> (\<exists>c. runInits ext0 (take 1 (inits ctx)) ctx = Inr c
           \<and> map f_blks (p_fns (pkg c)) =
               [[[Op_Call (FnExpr 1) [], Op_UnOp ''*'' (GlobalExpr 0), Op_Return []]], []]))
   \<and> (\<exists>p. NewPackage ext0 pkgAB = Inr p
        \<and> map f_blks (p_fns p) =
            [[[Op_Call (FnExpr 1) [], Op_UnOp ''*'' (GlobalExpr 0), Op_Return []]],
             [[Op_Return []]]])
   \<and> (\<exists>m \<in> set (sortedMembers pkgT). isType m) \<and> NewPackage ext0 pkgT = Inl Todo"
proof -
  have nt: "\<not> (\<exists>m \<in> set (sortedMembers pkgAB). isType m)"
    by (simp add: sortedMembers_pkgAB)
  have ty: "\<exists>m \<in> set (sortedMembers pkgT). isType m"
    by (simp add: sortedMembers_def pkgT_def)
  have fs: "nonGenericFuncs (sortedMembers pkgAB) = [fA, fB]"
    "globalsOf (sortedMembers pkgAB) = [gV]"
    by (simp_all add: sortedMembers_pkgAB fA_def fB_def fB_info_def)
  have dn: "distinct (map (declName ext0) (nonGenericFuncs (sortedMembers pkgAB)))"
    "distinct (map (globalName ext0) (globalsOf (sortedMembers pkgAB)))"
    by (simp_all add: fs fA_def fB_def fB_info_def declName_def ext0_def)
  obtain ctx where d: "declareMembers ext0 (sortedMembers pkgAB) (newContext pkgAB) = Inr ctx"
    by (simp add: declareMembers_closed sortedMembers_pkgAB)
  note p = declared_fields(2) [OF d]
  note Tc = declare_before_build [of pkgAB ext0 1 ctx "Return []" ctx fB gV 1 0]
  from Tc nt d dn have r: "compileValue ext0 (Function (info fB)) ctx = Inr (FnExpr 1, ctx)"
    "compileValue ext0 (Global gV) ctx = Inr (GlobalExpr 0, ctx)"
    by (auto simp: fs)
  have names: "map f_name (p_fns (pkg ctx)) = [''main.A'', ''main.B'']"
    by (simp add: p fs fA_def fB_def fB_info_def declName_def ext0_def)
  have nb: "\<forall>lf \<in> set (p_fns (pkg ctx)). f_blks lf = []" by (auto simp: p)
  have ctx: "ctx = declGlobals ext0 [gV] (declFuncs ext0 [fA, fB] (newContext pkgAB))"
    using declared_context [OF d] by (simp add: fs)
  obtain c where c: "runInits ext0 (take 1 (inits ctx)) ctx = Inr c"
    and cb: "map f_blks (p_fns (pkg c)) =
               [[[Op_Call (FnExpr 1) [], Op_UnOp ''*'' (GlobalExpr 0), Op_Return []]], []]"
    unfolding ctx
    by (simp add: declFuncs_def declGlobals_def pkg_eval_simps eval_simps fA_def fB_def
          fB_info_def gV_def ext0_def sig0_def pkgAB_def)
  obtain q where n: "NewPackage ext0 pkgAB = Inr q"
    and b: "map f_blks (p_fns q) =
              [[[Op_Call (FnExpr 1) [], Op_UnOp ''*'' (GlobalExpr 0), Op_Return []]],
               [[Op_Return []]]]"
    by (simp only: NewPackage_def sortedMembers_pkgAB)
       (simp add: pkg_eval_simps eval_simps fA_def fB_def fB_info_def gV_def ext0_def sig0_def
          pkgAB_def)
  from declare_before_build [of pkgT ext0] ty have t: "NewPackage ext0 pkgT = Inl Todo"
    by simp
  have "\<exists>ctx. declareMembers ext0 (sortedMembers pkgAB) (newContext pkgAB) = Inr ctx
     \<and> map f_name (p_fns (pkg ctx)) = [''main.A'', ''main.B'']
     \<and> (\<forall>lf \<in> set (p_fns (pkg ctx)). f_blks lf = [])
     \<and> distinct (map (declName ext0) (nonGenericFuncs (sortedMembers pkgAB)))
     \<and> nonGenericFuncs (sortedMembers pkgAB) ! 1 = fB
     \<and> compileValue ext0 (Function (info fB)) ctx = Inr (FnExpr 1, ctx)
     \<and> compileValue ext0 (Global gV) ctx = Inr (GlobalExpr 0, ctx)
     \<and> (\<exists>c. runInits ext0 (take 1 (inits ctx)) ctx = Inr c
           \<and> map f_blks (p_fns (pkg c)) =
               [[[Op_Call (FnExpr 1) [], Op_UnOp ''*'' (GlobalExpr 0), Op_Return []]], []])"
  proof -
    have inner: "\<exists>c. runInits ext0 (take 1 (inits ctx)) ctx = Inr c
           \<and> map f_blks (p_fns (pkg c)) =
               [[[Op_Call (FnExpr 1) [], Op_UnOp ''*'' (GlobalExpr 0), Op_Return []]], []]"
      by (rule exI [of _ c], rule conjI, rule c, rule cb)
    have k: "nonGenericFuncs (sortedMembers pkgAB) ! 1 = fB" by (simp add: fs)
    show ?thesis
      by (rule exI [of _ ctx]) (intro conjI; fact)
  qed
  moreover have "\<exists>p. NewPackage ext0 pkgAB = Inr p
        \<and> map f_blks (p_fns p) =
            [[[Op_Call (FnExpr 1) [], Op_UnOp ''*'' (GlobalExpr 0), Op_Return []]],
             [[Op_Return []]]]"
    using n b by simp
  ultimately show ?thesis using nt ty t by blast
qed

section \<open>Unsupported constructs\<close>

lemma compileInstr_unsupported:
  assumes "unsupportedPanic instr = Some e"
    and "\<forall>k. isOther k \<longrightarrow> bvals s k = None"
  shows "compileInstr ext instr s = Inl e"
  using assms
  by (induction instr rule: unsupportedPanic.induct) (auto simp: compileInstrAndValue.simps)

lemma compileInstrs_append:
  "compileInstrs ext (xs @ ys) s =
     (case compileInstrs ext xs s of Inl e \<Rightarrow> Inl e | Inr s1 \<Rightarrow> compileInstrs ext ys s1)"
  by (induction xs arbitrary: s) (auto split: sum.splits)

lemma compileInstrs_noOther:
  assumes "compileInstrs ext instrs s = Inr s'" and "\<forall>k. isOther k \<longrightarrow> bvals s k = None"
  shows "\<forall>k. isOther k \<longrightarrow> bvals s' k = None"
  using compileInstrs_keeps [OF assms(1)] assms(2) keeps_noOther by blast

lemma compileInstrs_first_unsupported:
  assumes "compileInstrs ext pre s = Inr s1" and "\<forall>k. isOther k \<longrightarrow> bvals s k = None"
    and "unsupportedPanic instr = Some e"
  shows "compileInstrs ext (pre @ instr # post) s = Inl e"
  using compileInstr_unsupported [OF assms(3) compileInstrs_noOther [OF assms(1,2)], of ext]
  by (simp add: compileInstrs_append assms(1))

lemma nonGenericFuncs_member:
  "MFunction f \<in> set ms \<Longrightarrow> fn_typeparams (info f) = None \<Longrightarrow> f \<in> set (nonGenericFuncs ms)"
  by (induction ms rule: nonGenericFuncs.induct) auto

lemma closure_registered:
  "f \<in> set fs \<Longrightarrow>
     \<exists>c \<in> set (map (\<lambda>(i, f). \<lparr>c_name = N f, c_fn = i, c_f = f\<rparr>) (enumerate n fs)). c_f c = f"
  by (induction fs arbitrary: n) auto

lemma sortedMembers_pkgP: "sortedMembers pkgP = [MFunction fB, MFunction fPanic]"
  by (simp add: sortedMembers_def pkgP_def fB_def fB_info_def fPanic_def)

lemma funcKind_range:
  "funcKind ext v = fnNormal \<or> funcKind ext v = fnHasVArg \<or> funcKind ext v = fnUnsafeInit"
  by (auto simp: funcKind_def Let_def split: ssa_Value.splits)

lemma cleanCache_cache:
  assumes "cleanCache ext s2" and "emit ope s2 = Inr (e, s3)" and "\<not> unsupportedInIV ext iv"
  shows "cleanCache ext (s3\<lparr>bvals := (bvals s3)(iv \<mapsto> e)\<rparr>)"
proof -
  from emit_frame [OF assms(2)] have "bvals s3 = bvals s2" by simp
  with assms(1,3) show ?thesis by (simp add: cleanCache_def)
qed

lemma compile_clean:
  "\<forall>e s'. compileInstrAndValue ext iv s = Inr (e, s') \<longrightarrow> cleanCache ext s \<longrightarrow>
      \<not> unsupportedInIV ext iv \<and> cleanCache ext s'"
  "\<forall>e s'. compileValue ext v s = Inr (e, s') \<longrightarrow> cleanCache ext s \<longrightarrow>
      \<not> unsupportedInV ext v \<and> cleanCache ext s'"
  "\<forall>es s'. compileValues ext vals hv s = Inr (es, s') \<longrightarrow> cleanCache ext s \<longrightarrow>
      hv = fnNormal \<or> hv = fnHasVArg \<longrightarrow>
      (\<forall>v \<in> set vals. \<not> unsupportedInV ext v) \<and> cleanCache ext s'"
  "\<forall>es s'. compileValuesLoop ext vs k s = Inr (es, s') \<longrightarrow> cleanCache ext s \<longrightarrow>
      (\<forall>v \<in> set (take k vs). \<not> unsupportedInV ext v) \<and> cleanCache ext s'"
proof (induction ext iv s and ext v s and ext vals hv s and ext vs k s
       rule: compileInstrAndValue_compileValue_compileValues_compileValuesLoop.induct)
  case (1 ext iv s)
  show ?case
  proof (intro allI impI)
    fix e s' assume A: "compileInstrAndValue ext iv s = Inr (e, s')" and cl: "cleanCache ext s"
    show "\<not> unsupportedInIV ext iv \<and> cleanCache ext s'"
    proof (cases "bvals s iv")
      case (Some v)
      with A have "s' = s" by (simp add: compileInstrAndValue.simps)
      with cl Some show ?thesis by (auto simp: cleanCache_def)
    next
      case None
      show ?thesis
      proof (cases iv)
        case (Call a callee args)
        show ?thesis
        proof (cases "funcKind ext callee = fnUnsafeInit")
          case True
          with A None Call have "s' = s" by (simp add: compileInstrAndValue.simps)
          with cl True Call show ?thesis by simp
        next
          case False
          from A None Call False obtain fnE s1 argEs s2 s3 where
            c1: "compileValue ext callee s = Inr (fnE, s1)" and
            c2: "compileValues ext args (funcKind ext callee) s1 = Inr (argEs, s2)" and
            c3: "emit (Op_Call fnE argEs) s2 = Inr (e, s3)" and
            s': "s' = s3\<lparr>bvals := (bvals s3)(iv \<mapsto> e)\<rparr>"
            by (auto simp: compileInstrAndValue.simps dest!: cacheRet_Inr split: sum.splits prod.splits)
          from "1.IH"(1) [OF None Call False] c1 cl
          have i1: "\<not> unsupportedInV ext callee" "cleanCache ext s1" by auto
          from False funcKind_range [of ext callee]
          have k: "funcKind ext callee = fnNormal \<or> funcKind ext callee = fnHasVArg" by simp
          from "1.IH"(2) [OF None Call False c1 refl] c2 i1(2) k
          have i2: "\<forall>v \<in> set args. \<not> unsupportedInV ext v" "cleanCache ext s2" by auto
          from i1(1) i2(1) have n: "\<not> unsupportedInIV ext iv" by (simp add: Call)
          from cleanCache_cache [OF i2(2) c3 n] n show ?thesis unfolding s' by simp
        qed
      next
        case (BinOp a ope X Y)
        from A None BinOp obtain x s1 y s2 s3 where
          c1: "compileValue ext X s = Inr (x, s1)" and
          c2: "compileValue ext Y s1 = Inr (y, s2)" and
          c3: "emit (Op_BinOp ope x y) s2 = Inr (e, s3)" and
          s': "s' = s3\<lparr>bvals := (bvals s3)(iv \<mapsto> e)\<rparr>"
          by (auto simp: compileInstrAndValue.simps dest!: cacheRet_Inr split: sum.splits prod.splits)
        from "1.IH"(3) [OF None BinOp] c1 cl
        have i1: "\<not> unsupportedInV ext X" "cleanCache ext s1" by auto
        from "1.IH"(4) [OF None BinOp c1 refl] c2 i1(2)
        have i2: "\<not> unsupportedInV ext Y" "cleanCache ext s2" by auto
        from i1(1) i2(1) have n: "\<not> unsupportedInIV ext iv" by (simp add: BinOp)
        from cleanCache_cache [OF i2(2) c3 n] n show ?thesis unfolding s' by simp
      next
        case (UnOp a ope X)
        from A None UnOp obtain x s1 s3 where
          c1: "compileValue ext X s = Inr (x, s1)" and
          c3: "emit (Op_UnOp ope x) s1 = Inr (e, s3)" and
          s': "s' = s3\<lparr>bvals := (bvals s3)(iv \<mapsto> e)\<rparr>"
          by (auto simp: compileInstrAndValue.simps dest!: cacheRet_Inr split: sum.splits prod.splits)
        from "1.IH"(5) [OF None UnOp] c1 cl
        have i1: "\<not> unsupportedInV ext X" "cleanCache ext s1" by auto
        from i1(1) have n: "\<not> unsupportedInIV ext iv" by (simp add: UnOp)
        from cleanCache_cache [OF i1(2) c3 n] n show ?thesis unfolding s' by simp
      next
        case (IndexAddr a X Idx)
        from A None IndexAddr obtain x s1 y s2 s3 where
          c1: "compileValue ext X s = Inr (x, s1)" and
          c2: "compileValue ext Idx s1 = Inr (y, s2)" and
          c3: "emit (Op_IndexAddr x y) s2 = Inr (e, s3)" and
          s': "s' = s3\<lparr>bvals := (bvals s3)(iv \<mapsto> e)\<rparr>"
          by (auto simp: compileInstrAndValue.simps dest!: cacheRet_Inr split: sum.splits prod.splits)
        from "1.IH"(6) [OF None IndexAddr] c1 cl
        have i1: "\<not> unsupportedInV ext X" "cleanCache ext s1" by auto
        from "1.IH"(7) [OF None IndexAddr c1 refl] c2 i1(2)
        have i2: "\<not> unsupportedInV ext Idx" "cleanCache ext s2" by auto
        from i1(1) i2(1) have n: "\<not> unsupportedInIV ext iv" by (simp add: IndexAddr)
        from cleanCache_cache [OF i2(2) c3 n] n show ?thesis unfolding s' by simp
      next
        case (Alloc a t heap)
        from A None Alloc obtain s3 where
          c3: "emit (Op_Alloc (progType ext t) heap) s = Inr (e, s3)" and
          s': "s' = s3\<lparr>bvals := (bvals s3)(iv \<mapsto> e)\<rparr>"
          by (auto simp: compileInstrAndValue.simps dest!: cacheRet_Inr split: sum.splits prod.splits)
        have n: "\<not> unsupportedInIV ext iv" by (simp add: Alloc)
        from cleanCache_cache [OF cl c3 n] n show ?thesis unfolding s' by simp
      next
        case (OtherIV a k)
        with A None show ?thesis by (simp add: compileInstrAndValue.simps)
      qed
    qed
  qed
next
  case (2 ext v s)
  show ?case
  proof (cases v)
    case (InstrVal iv)
    from "2.IH" [OF InstrVal] show ?thesis
      by (auto simp: compileValue.simps InstrVal)
  qed (auto simp: compileValue.simps fnParam_def funcOf_def varOf_def
            split: option.splits sum.splits)
next
  case (3 ext vals hv s)
  show ?case
  proof (intro allI impI)
    fix es s'
    assume A: "compileValues ext vals hv s = Inr (es, s')" and cl: "cleanCache ext s"
      and hv: "hv = fnNormal \<or> hv = fnHasVArg"
    from A have nn: "\<not> int (length vals) - hv < 0"
      by (auto simp: compileValues.simps Let_def split: if_splits)
    from A nn obtain ret where
      lp: "compileValuesLoop ext vals (nat (int (length vals) - hv)) s = Inr (ret, s')"
      by (auto simp: compileValues.simps Let_def split: sum.splits prod.splits if_splits)
    from "3.IH" [OF refl nn] lp cl
    have i: "\<forall>v \<in> set (take (nat (int (length vals) - hv)) vals). \<not> unsupportedInV ext v"
      "cleanCache ext s'" by auto
    show "(\<forall>v \<in> set vals. \<not> unsupportedInV ext v) \<and> cleanCache ext s'"
    proof (cases "hv = fnNormal")
      case True
      with i show ?thesis by (simp add: fnNormal_def)
    next
      case False
      with hv have h1: "hv = 1" by (simp add: fnHasVArg_def)
      with nn have len: "0 < length vals" by auto
      with h1 have n: "nat (int (length vals) - hv) = length vals - 1" by auto
      from A lp h1 len n obtain t where last: "vals ! (length vals - 1) = Const None t"
        by (auto simp: compileValues.simps Let_def compileVArg_def
              split: sum.splits prod.splits if_splits ssa_Value.splits)
      from len have "vals = take (length vals - 1) vals @ [vals ! (length vals - 1)]"
        by (metis One_nat_def Suc_pred' lessI take_Suc_conv_app_nth take_all_iff le_refl)
      then have "set vals = set (take (length vals - 1) vals) \<union> {vals ! (length vals - 1)}"
        by (metis list.simps(15) set_append empty_set Un_insert_right sup_bot.right_neutral)
      with i n last show ?thesis by auto
    qed
  qed
next
  case (4 ext vs s)
  show ?case by simp
next
  case (5 ext k s)
  show ?case by simp
next
  case (6 ext v vs k s)
  show ?case
  proof (intro allI impI)
    fix es s'
    assume A: "compileValuesLoop ext (v # vs) (Suc k) s = Inr (es, s')" and cl: "cleanCache ext s"
    then obtain x s1 xs where
      c1: "compileValue ext v s = Inr (x, s1)" and
      c2: "compileValuesLoop ext vs k s1 = Inr (xs, s')"
      by (auto split: sum.splits prod.splits)
    from "6.IH"(1) c1 cl have i1: "\<not> unsupportedInV ext v" "cleanCache ext s1" by auto
    from "6.IH"(2) [OF c1 refl] c2 i1(2)
    have i2: "\<forall>v \<in> set (take k vs). \<not> unsupportedInV ext v" "cleanCache ext s'" by auto
    from i1(1) i2 show "(\<forall>v \<in> set (take (Suc k) (v # vs)). \<not> unsupportedInV ext v) \<and> cleanCache ext s'"
      by simp
  qed
qed

subsection \<open>A panic is never recovered\<close>

lemma failure_simps [simp]: "failure (Inl e) = Some e" "failure (Inr x) = None"
  by (simp_all add: failure_def)

lemma thenCall_simps [simp]: "thenCall (Inl e) k = []" "thenCall (Inr x) k = k x"
  by (simp_all add: thenCall_def)

lemma cacheRet_Inl [simp]: "cacheRet iv (Inl e) = Inl e"
  by (simp add: cacheRet_def)

lemma callee_panic:
  assumes "d \<in> set (callees ext c)" and "panicOf ext d = Some e"
  shows "panicOf ext c = Some e"
proof (cases c)
  case (At_compileInstrAndValue iv s)
  with assms show ?thesis
    by (cases iv)
       (auto simp: compileInstrAndValue.simps failure_def thenCall_def
          split: option.splits sum.splits if_splits prod.splits)
next
  case (At_compileValue v s)
  with assms show ?thesis
    by (cases v) (auto simp: compileValue.simps failure_def split: sum.splits)
next
  case (At_compileValues vals hasVArg s)
  with assms show ?thesis
    by (auto simp: compileValues.simps Let_def failure_def split: sum.splits if_splits)
next
  case (At_compileValuesLoop vs k s)
  with assms show ?thesis
    by (cases "(ext, vs, k, s)" rule: compileValuesLoop.cases)
       (auto simp: failure_def thenCall_def split: sum.splits prod.splits)
next
  case (At_compileInstr instr s)
  with assms show ?thesis
    by (cases instr)
       (auto simp: failure_def thenCall_def split: sum.splits prod.splits if_splits)
next
  case (At_compileInstrs instrs s)
  with assms show ?thesis
    by (cases instrs) (auto simp: failure_def thenCall_def split: sum.splits)
next
  case (At_compileBlock block doInit s)
  with assms show ?thesis
    by (auto simp: compileBlock_def Let_def failure_def thenCall_def
          split: sum.splits if_splits)
next
  case (At_compileBlocks name i blocks s)
  with assms show ?thesis
    by (cases blocks) (auto simp: failure_def thenCall_def split: sum.splits prod.splits)
next
  case (At_runInit ini s)
  with assms show ?thesis
    by (auto simp: runInit_def Let_def failure_def split: sum.splits if_splits)
next
  case (At_runInits cs s)
  with assms show ?thesis
    by (cases cs) (auto simp: failure_def thenCall_def split: sum.splits)
next
  case (At_NewPackage spkg)
  with assms show ?thesis
    by (auto simp: NewPackage_def failure_def thenCall_def split: sum.splits)
qed

lemma invoked_panic:
  "d \<in> set (invocations n ext c) \<Longrightarrow> panicOf ext d = Some e \<Longrightarrow> panicOf ext c = Some e"
proof (induction n arbitrary: c)
  case 0
  then show ?case by simp
next
  case (Suc n)
  from Suc.prems(1) consider "d = c"
    | c' where "c' \<in> set (callees ext c)" "d \<in> set (invocations n ext c')"
    by auto
  then show ?case
  proof cases
    case 1
    with Suc.prems(2) show ?thesis by simp
  next
    case 2
    from callee_panic [OF 2(1) Suc.IH [OF 2(2) Suc.prems(2)]] show ?thesis .
  qed
qed

lemma cleanCache_upd [simp]:
  "cleanCache ext (s\<lparr>fn := f\<rparr>) = cleanCache ext s"
  "cleanCache ext (s\<lparr>b_blk := b\<rparr>) = cleanCache ext s"
  "cleanCache ext (s\<lparr>pkg := p\<rparr>) = cleanCache ext s"
  "cleanCache ext (s\<lparr>bvals := Map.empty\<rparr>)"
  by (simp_all add: cleanCache_def)

lemma emit_clean: "emit ope s = Inr (e, s') \<Longrightarrow> cleanCache ext s \<Longrightarrow> cleanCache ext s'"
  using emit_frame [of ope s e s'] by (simp add: cleanCache_def)

lemma compileValue_clean:
  "compileValue ext v s = Inr (e, s') \<Longrightarrow> cleanCache ext s \<Longrightarrow>
     \<not> unsupportedInV ext v \<and> cleanCache ext s'"
  using compile_clean(2) by blast

lemma compileValuesLoop_clean:
  "compileValuesLoop ext vs k s = Inr (es, s') \<Longrightarrow> cleanCache ext s \<Longrightarrow>
     (\<forall>v \<in> set (take k vs). \<not> unsupportedInV ext v) \<and> cleanCache ext s'"
  using compile_clean(4) by blast

lemma compileValues_clean:
  "compileValues ext vals hv s = Inr (es, s') \<Longrightarrow> cleanCache ext s \<Longrightarrow>
     hv = fnNormal \<or> hv = fnHasVArg \<Longrightarrow>
     (\<forall>v \<in> set vals. \<not> unsupportedInV ext v) \<and> cleanCache ext s'"
  using compile_clean(3) by blast

lemma compileInstrAndValue_clean:
  "compileInstrAndValue ext iv s = Inr (e, s') \<Longrightarrow> cleanCache ext s \<Longrightarrow>
     \<not> unsupportedInIV ext iv \<and> cleanCache ext s'"
  using compile_clean(1) by blast

lemma compileInstr_clean:
  assumes "compileInstr ext instr s = Inr s'" and cl: "cleanCache ext s"
  shows "\<not> unsupportedIn ext instr \<and> cleanCache ext s'"
proof (cases instr)
  case (IV iv)
  with assms(1) obtain e where "compileInstrAndValue ext iv s = Inr (e, s')"
    by (auto split: sum.splits prod.splits)
  from compileInstrAndValue_clean [OF this cl] show ?thesis by (simp add: IV)
next
  case (Store Addr Val)
  with assms(1) obtain ptr s1 val s2 r where
    c1: "compileValue ext Addr s = Inr (ptr, s1)" and
    c2: "compileValue ext Val s1 = Inr (val, s2)" and
    c3: "emit (Op_Store ptr val) s2 = Inr (r, s')"
    by (auto split: sum.splits prod.splits)
  from compileValue_clean [OF c1 cl] have i1: "\<not> unsupportedInV ext Addr" "cleanCache ext s1"
    by simp_all
  from compileValue_clean [OF c2 i1(2)] have i2: "\<not> unsupportedInV ext Val" "cleanCache ext s2"
    by simp_all
  from emit_clean [OF c3 i2(2)] i1(1) i2(1) show ?thesis by (simp add: Store)
next
  case (Jump succs)
  with assms(1) obtain jmpb r where "emit (Op_Jump jmpb) s = Inr (r, s')"
    by (auto split: sum.splits prod.splits if_splits)
  from emit_clean [OF this cl] show ?thesis by (simp add: Jump)
next
  case (Return Results)
  with assms(1) obtain results s1 r where
    c1: "compileValuesLoop ext Results (length Results) s = Inr (results, s1)" and
    c3: "emit (Op_Return results) s1 = Inr (r, s')"
    by (auto split: sum.splits prod.splits)
  from compileValuesLoop_clean [OF c1 cl]
  have i1: "\<forall>v \<in> set Results. \<not> unsupportedInV ext v" "cleanCache ext s1" by simp_all
  from emit_clean [OF c3 i1(2)] i1(1) show ?thesis by (simp add: Return)
next
  case (IfInstr Cond succs)
  with assms(1) obtain cond s1 thenb elseb r where
    c1: "compileValue ext Cond s = Inr (cond, s1)" and
    c3: "emit (Op_If cond thenb elseb) s1 = Inr (r, s')"
    by (auto split: sum.splits prod.splits if_splits)
  from compileValue_clean [OF c1 cl] have i1: "\<not> unsupportedInV ext Cond" "cleanCache ext s1"
    by simp_all
  from emit_clean [OF c3 i1(2)] i1(1) show ?thesis by (simp add: IfInstr)
next
  case (OtherInstr k)
  with assms(1) show ?thesis by simp
qed

lemma compileInstrs_clean:
  "compileInstrs ext instrs s = Inr s' \<Longrightarrow> cleanCache ext s \<Longrightarrow>
     (\<forall>instr \<in> set instrs. \<not> unsupportedIn ext instr) \<and> cleanCache ext s'"
proof (induction instrs arbitrary: s)
  case Nil
  then show ?case by simp
next
  case (Cons instr rest)
  from Cons.prems(1) obtain s1 where
    c1: "compileInstr ext instr s = Inr s1" and c2: "compileInstrs ext rest s1 = Inr s'"
    by (auto split: sum.splits)
  from compileInstr_clean [OF c1 Cons.prems(2)]
  have i1: "\<not> unsupportedIn ext instr" "cleanCache ext s1" by simp_all
  from Cons.IH [OF c2 i1(2)] i1(1) show ?case by simp
qed

lemma callInit_clean: "callInit s = Inr s' \<Longrightarrow> cleanCache ext s \<Longrightarrow> cleanCache ext s'"
  by (auto simp: callInit_def split: option.splits sum.splits prod.splits dest: emit_clean)

lemma compileBlock_clean:
  assumes "compileBlock ext block doInit s = Inr (ret, s')"
  shows "(\<forall>instr \<in> set (Instrs block). \<not> unsupportedIn ext instr) \<and> cleanCache ext s'"
proof -
  from compileBlock_Inr [OF assms] obtain s3 where
    a: "(if doInit then callInit (s\<lparr>b_blk := Some ret, bvals := Map.empty\<rparr>)
               else Inr (s\<lparr>b_blk := Some ret, bvals := Map.empty\<rparr>)) = Inr s3"
    and b: "compileInstrs ext (Instrs block) s3 = Inr s'" by blast
  have "cleanCache ext (s\<lparr>b_blk := Some ret, bvals := Map.empty\<rparr>)" by simp
  with a have "cleanCache ext s3"
    by (auto split: if_splits dest: callInit_clean)
  from compileInstrs_clean [OF b this] show ?thesis .
qed

lemma compileBlocks_clean:
  "compileBlocks ext name i blocks s = Inr s' \<Longrightarrow> cleanCache ext s \<Longrightarrow>
     (\<forall>block \<in> set blocks. \<forall>instr \<in> set (Instrs block). \<not> unsupportedIn ext instr)
     \<and> cleanCache ext s'"
proof (induction blocks arbitrary: i s)
  case Nil
  then show ?case by simp
next
  case (Cons block rest)
  from Cons.prems(1) obtain ret s1 where
    c1: "compileBlock ext block (i = 0 \<and> name = ''main'') s = Inr (ret, s1)" and
    c2: "compileBlocks ext name (Suc i) rest s1 = Inr s'"
    by (auto split: sum.splits prod.splits)
  from compileBlock_clean [OF c1]
  have i1: "\<forall>instr \<in> set (Instrs block). \<not> unsupportedIn ext instr" "cleanCache ext s1"
    by simp_all
  from Cons.IH [OF c2 i1(2)] i1(1) show ?case by simp
qed

lemma runInit_clean:
  assumes "runInit ext c s = Inr s'" and cl: "cleanCache ext s"
  shows "(\<forall>block \<in> set (Blocks (c_f c)). \<forall>instr \<in> set (Instrs block). \<not> unsupportedIn ext instr)
         \<and> cleanCache ext s'"
proof (cases "length (Blocks (c_f c)) = 0")
  case True
  with assms show ?thesis by (auto simp: runInit_def)
next
  case False
  define s2 where
    "s2 = s\<lparr>fn := Some (c_fn c),
            pkg := MakeBlocks (c_fn c) (length (Blocks (c_f c))) (pkg (s\<lparr>fn := Some (c_fn c)\<rparr>)),
            b_blk := None\<rparr>"
  from assms(1) False obtain s4 where
    b: "compileBlocks ext (c_name c) 0 (Blocks (c_f c)) s2 = Inr s4"
    and s': "s' = s4\<lparr>fn := None\<rparr>"
    by (auto simp: runInit_def Let_def s2_def split: sum.splits)
  from cl have "cleanCache ext s2" by (simp add: s2_def)
  from compileBlocks_clean [OF b this] show ?thesis by (simp add: s')
qed

lemma runInits_clean:
  "runInits ext cs s = Inr s' \<Longrightarrow> cleanCache ext s \<Longrightarrow>
     (\<forall>c \<in> set cs. \<forall>block \<in> set (Blocks (c_f c)). \<forall>instr \<in> set (Instrs block).
         \<not> unsupportedIn ext instr)
     \<and> cleanCache ext s'"
proof (induction cs arbitrary: s)
  case Nil
  then show ?case by simp
next
  case (Cons c rest)
  from Cons.prems(1) obtain s1 where
    c1: "runInit ext c s = Inr s1" and c2: "runInits ext rest s1 = Inr s'"
    by (auto split: sum.splits)
  from runInit_clean [OF c1 Cons.prems(2)]
  have i1: "\<forall>block \<in> set (Blocks (c_f c)). \<forall>instr \<in> set (Instrs block). \<not> unsupportedIn ext instr"
    "cleanCache ext s1" by simp_all
  from Cons.IH [OF c2 i1(2)] i1(1) show ?case by simp
qed

lemma NewPackage_clean:
  assumes n: "NewPackage ext spkg = Inr p"
    and m: "MFunction f \<in> snd ` set (Members spkg)" and g: "fn_typeparams (info f) = None"
    and b: "block \<in> set (Blocks f)" and i: "instr \<in> set (Instrs block)"
  shows "\<not> unsupportedIn ext instr"
proof -
  from n obtain ctx ctx' where
    d: "declareMembers ext (sortedMembers spkg) (newContext spkg) = Inr ctx"
    and r: "runInits ext (inits ctx) ctx = Inr ctx'"
    by (auto simp: NewPackage_def split: sum.splits)
  from m g have "f \<in> set (nonGenericFuncs (sortedMembers spkg))"
    by (simp add: nonGenericFuncs_member set_sortedMembers)
  then have "\<exists>c \<in> set (inits ctx). c_f c = f"
    unfolding declared_fields(1) [OF d] by (rule closure_registered)
  then obtain c where c: "c \<in> set (inits ctx)" "c_f c = f" by blast
  have "cleanCache ext ctx" by (simp add: cleanCache_def declared_fields(6) [OF d])
  from runInits_clean [OF r this] c b i show ?thesis by blast
qed

lemma callee_clean:
  assumes "d \<in> set (callees ext c)" and "cleanCache ext (ctxOf c)"
  shows "cleanCache ext (ctxOf d)"
proof (cases c)
  case (At_compileInstrAndValue iv s)
  with assms show ?thesis
    by (cases iv)
       (auto simp: thenCall_def split: option.splits sum.splits if_splits prod.splits
          dest: compileValue_clean compileValue_clean [OF sym])
next
  case (At_compileValue v s)
  with assms show ?thesis by (cases v) auto
next
  case (At_compileValues vals hasVArg s)
  with assms show ?thesis by (auto simp: Let_def split: if_splits)
next
  case (At_compileValuesLoop vs k s)
  with assms show ?thesis
    by (cases "(ext, vs, k, s)" rule: compileValuesLoop.cases)
       (auto simp: thenCall_def split: sum.splits prod.splits dest: compileValue_clean compileValue_clean [OF sym])
next
  case (At_compileInstr instr s)
  with assms show ?thesis
    by (cases instr)
       (auto simp: thenCall_def split: sum.splits prod.splits dest: compileValue_clean compileValue_clean [OF sym])
next
  case (At_compileInstrs instrs s)
  with assms show ?thesis
    by (cases instrs) (auto simp: thenCall_def split: sum.splits dest: compileInstr_clean compileInstr_clean [OF sym])
next
  case (At_compileBlock block doInit s)
  with assms show ?thesis
    by (auto simp: thenCall_def Let_def split: sum.splits if_splits
          dest: callInit_clean [where ext = ext] callInit_clean [OF sym, where ext = ext])
next
  case (At_compileBlocks name i blocks s)
  with assms show ?thesis
    by (cases blocks)
       (auto simp: thenCall_def split: sum.splits prod.splits dest: compileBlock_clean compileBlock_clean [OF sym])
next
  case (At_runInit ini s)
  with assms show ?thesis by (auto simp: Let_def split: if_splits)
next
  case (At_runInits cs s)
  with assms show ?thesis
    by (cases cs) (auto simp: thenCall_def split: sum.splits dest: runInit_clean runInit_clean [OF sym])
next
  case (At_NewPackage spkg)
  with assms show ?thesis
    by (auto simp: thenCall_def cleanCache_def split: sum.splits
          dest: declared_fields(6) declared_fields(6) [OF sym])
qed

lemma invoked_clean:
  "d \<in> set (invocations n ext c) \<Longrightarrow> cleanCache ext (ctxOf c) \<Longrightarrow> cleanCache ext (ctxOf d)"
proof (induction n arbitrary: c)
  case 0
  then show ?case by simp
next
  case (Suc n)
  from Suc.prems(1) consider "d = c"
    | c' where "c' \<in> set (callees ext c)" "d \<in> set (invocations n ext c')"
    by auto
  then show ?case
  proof cases
    case 1
    with Suc.prems(2) show ?thesis by simp
  next
    case 2
    from Suc.IH [OF 2(2) callee_clean [OF 2(1) Suc.prems(2)]] show ?thesis .
  qed
qed

lemma unsupportedPanic_unsupportedIn: "unsupportedPanic instr \<noteq> None \<Longrightarrow> unsupportedIn ext instr"
  by (induction instr rule: unsupportedPanic.induct) auto

subsection \<open>Unsupported constructs in a package\<close>

lemma NewPackage_panic:
  assumes "d \<in> set (invocations n ext (At_NewPackage spkg))" and "panicOf ext d = Some e"
  shows "NewPackage ext spkg = Inl e"
proof -
  from invoked_panic [OF assms] have "failure (NewPackage ext spkg) = Some e" by simp
  then show ?thesis by (cases "NewPackage ext spkg") (simp_all add: failure_def)
qed

lemma NewPackage_reached_clean:
  assumes "d \<in> set (invocations n ext (At_NewPackage spkg))"
  shows "cleanCache ext (ctxOf d)"
proof -
  have "cleanCache ext (ctxOf (At_NewPackage spkg))"
    by (simp add: cleanCache_def newContext_def)
  from invoked_clean [OF assms this] show ?thesis .
qed

lemma type_member_lowers_nothing:
  assumes "\<exists>m \<in> set (sortedMembers spkg). isType m"
  shows "invocations n ext (At_NewPackage spkg) = [At_NewPackage spkg]"
  using assms by (cases n) (simp_all add: declareMembers_closed)

text \<open>
  C3. A call that lowers an instruction or a value of a kind that the type switches do
  not list panics at once, and the panic names the kind. In a block, if the
  instructions before such an instruction are lowered, the block fails with that panic.
  No panic is recovered: if a call made in the course of \<open>NewPackage\<close> panics,
  \<open>NewPackage\<close> ends in that panic and returns no package. So when the translation
  of a package comes to lower an instruction or a value of an unlisted kind,
  \<open>NewPackage\<close> ends in the panic that names this kind. A package with a function
  (without type parameters) that has a construct of an unlisted kind in one of its
  blocks, be it an instruction or a value lowered with one (but not an argument of a
  skipped call), is never translated. A package with a type member ends in the panic of
  \<open>compileType\<close> before anything is lowered.
\<close>

theorem unsupported_is_fatal:
  "compileInstr ext (OtherInstr k) s = Inl (UnknownInstr k)
   \<and> compileValue ext (OtherValue k) s = Inl (UnknownValue k)
   \<and> (bvals s (OtherIV a k) = None \<longrightarrow>
        compileInstr ext (IV (OtherIV a k)) s = Inl (UnknownInstrAndValue k)
        \<and> compileValue ext (InstrVal (OtherIV a k)) s = Inl (UnknownInstrAndValue k))
   \<and> (unsupportedPanic instr = Some e \<and> fnBlock (Index block) s = Inr ret
        \<and> Instrs block = pre @ instr # post
        \<and> compileInstrs ext pre (s\<lparr>b_blk := Some ret, bvals := Map.empty\<rparr>) = Inr s1 \<longrightarrow>
        compileBlock ext block False s = Inl e)
   \<and> (d \<in> set (invocations n ext (At_NewPackage spkg)) \<and> panicOf ext d = Some e \<longrightarrow>
        NewPackage ext spkg = Inl e)
   \<and> (At_compileInstr (OtherInstr k) t \<in> set (invocations n ext (At_NewPackage spkg)) \<longrightarrow>
        NewPackage ext spkg = Inl (UnknownInstr k))
   \<and> (At_compileValue (OtherValue k) t \<in> set (invocations n ext (At_NewPackage spkg)) \<longrightarrow>
        NewPackage ext spkg = Inl (UnknownValue k))
   \<and> (At_compileInstrAndValue (OtherIV a k) t \<in> set (invocations n ext (At_NewPackage spkg)) \<longrightarrow>
        NewPackage ext spkg = Inl (UnknownInstrAndValue k))
   \<and> (MFunction f \<in> snd ` set (Members spkg) \<and> fn_typeparams (info f) = None
        \<and> blk \<in> set (Blocks f) \<and> ins \<in> set (Instrs blk) \<and> unsupportedIn ext ins \<longrightarrow>
        (\<exists>e. NewPackage ext spkg = Inl e))
   \<and> ((\<exists>m \<in> set (sortedMembers spkg). isType m) \<longrightarrow>
        NewPackage ext spkg = Inl Todo
        \<and> invocations n ext (At_NewPackage spkg) = [At_NewPackage spkg])"
proof (intro conjI impI)
  show "compileInstr ext (OtherInstr k) s = Inl (UnknownInstr k)" by simp
  show "compileValue ext (OtherValue k) s = Inl (UnknownValue k)"
    by (simp add: compileValue.simps)
next
  assume "bvals s (OtherIV a k) = None"
  then show "compileInstr ext (IV (OtherIV a k)) s = Inl (UnknownInstrAndValue k)"
    and "compileValue ext (InstrVal (OtherIV a k)) s = Inl (UnknownInstrAndValue k)"
    by (simp_all add: compileValue.simps compileInstrAndValue.simps)
next
  assume A: "unsupportedPanic instr = Some e \<and> fnBlock (Index block) s = Inr ret
        \<and> Instrs block = pre @ instr # post
        \<and> compileInstrs ext pre (s\<lparr>b_blk := Some ret, bvals := Map.empty\<rparr>) = Inr s1"
  then have "compileInstrs ext (pre @ instr # post) (s\<lparr>b_blk := Some ret, bvals := Map.empty\<rparr>) = Inl e"
    by (intro compileInstrs_first_unsupported) auto
  with A show "compileBlock ext block False s = Inl e"
    by (simp add: compileBlock_def)
next
  assume "d \<in> set (invocations n ext (At_NewPackage spkg)) \<and> panicOf ext d = Some e"
  then show "NewPackage ext spkg = Inl e" using NewPackage_panic by blast
next
  assume r: "At_compileInstr (OtherInstr k) t \<in> set (invocations n ext (At_NewPackage spkg))"
  have "panicOf ext (At_compileInstr (OtherInstr k) t) = Some (UnknownInstr k)" by simp
  from NewPackage_panic [OF r this] show "NewPackage ext spkg = Inl (UnknownInstr k)" .
next
  assume r: "At_compileValue (OtherValue k) t \<in> set (invocations n ext (At_NewPackage spkg))"
  have "panicOf ext (At_compileValue (OtherValue k) t) = Some (UnknownValue k)"
    by (simp add: compileValue.simps)
  from NewPackage_panic [OF r this] show "NewPackage ext spkg = Inl (UnknownValue k)" .
next
  assume r: "At_compileInstrAndValue (OtherIV a k) t \<in> set (invocations n ext (At_NewPackage spkg))"
  from NewPackage_reached_clean [OF r] have "bvals t (OtherIV a k) = None"
    by (auto simp: cleanCache_def)
  then have "panicOf ext (At_compileInstrAndValue (OtherIV a k) t) = Some (UnknownInstrAndValue k)"
    by (simp add: compileInstrAndValue.simps)
  from NewPackage_panic [OF r this] show "NewPackage ext spkg = Inl (UnknownInstrAndValue k)" .
next
  assume A: "MFunction f \<in> snd ` set (Members spkg) \<and> fn_typeparams (info f) = None
        \<and> blk \<in> set (Blocks f) \<and> ins \<in> set (Instrs blk) \<and> unsupportedIn ext ins"
  show "\<exists>e. NewPackage ext spkg = Inl e"
  proof (cases "NewPackage ext spkg")
    case (Inl e)
    then show ?thesis by simp
  next
    case (Inr p)
    from NewPackage_clean [OF Inr, of f blk ins] A show ?thesis by simp
  qed
next
  assume ty: "\<exists>m \<in> set (sortedMembers spkg). isType m"
  then show "NewPackage ext spkg = Inl Todo"
    by (simp add: NewPackage_def declareMembers_closed)
  from ty show "invocations n ext (At_NewPackage spkg) = [At_NewPackage spkg]"
    by (rule type_member_lowers_nothing)
qed

lemma sortedMembers_pkgL: "sortedMembers pkgL = [MFunction fB, MFunction fLen]"
  by (simp add: sortedMembers_def pkgL_def fB_def fB_info_def fLen_def)

lemma sortedMembers_pkgPhi: "sortedMembers pkgPhi = [MFunction fPhi]"
  by (simp add: sortedMembers_def pkgPhi_def)

lemma sortedMembers_pkgTP: "sortedMembers pkgTP = [MFunction fPanic, MType ''T'' 50]"
  by (simp add: sortedMembers_def pkgTP_def fPanic_def)

lemma reached_in_build:
  assumes "declareMembers ext (sortedMembers spkg) (newContext spkg) = Inr ctx"
    and "d \<in> set (invocations n ext (At_runInits (inits ctx) ctx))"
  shows "d \<in> set (invocations (Suc n) ext (At_NewPackage spkg))"
  using assms by auto

theorem unsupported_is_fatal_witness:
  "(\<exists>t. At_compileValue (OtherValue ''*ssa.Builtin'') t
            \<in> set (invocations 10 ext0 (At_NewPackage pkgL))
        \<and> panicOf ext0 (At_compileValue (OtherValue ''*ssa.Builtin'') t)
            = Some (UnknownValue ''*ssa.Builtin''))
   \<and> NewPackage ext0 pkgL = Inl (UnknownValue ''*ssa.Builtin'')
   \<and> MFunction fLen \<in> snd ` set (Members pkgL)
   \<and> fn_typeparams (info fLen) = None
   \<and> hd (Blocks fLen) \<in> set (Blocks fLen)
   \<and> IV (Call 2 (OtherValue ''*ssa.Builtin'') [InstrVal (Alloc 1 ''[]int'' True)])
        \<in> set (Instrs (hd (Blocks fLen)))
   \<and> unsupportedIn ext0
        (IV (Call 2 (OtherValue ''*ssa.Builtin'') [InstrVal (Alloc 1 ''[]int'' True)]))
   \<and> (\<exists>t. At_compileInstr (OtherInstr ''*ssa.Panic'') t
            \<in> set (invocations 8 ext0 (At_NewPackage pkgP)))
   \<and> NewPackage ext0 pkgP = Inl (UnknownInstr ''*ssa.Panic'')
   \<and> (\<exists>t. At_compileInstrAndValue (OtherIV 2 ''*ssa.Phi'') t
            \<in> set (invocations 9 ext0 (At_NewPackage pkgPhi)))
   \<and> NewPackage ext0 pkgPhi = Inl (UnknownInstrAndValue ''*ssa.Phi'')
   \<and> (\<exists>m \<in> set (sortedMembers pkgTP). isType m)
   \<and> NewPackage ext0 pkgTP = Inl Todo
   \<and> invocations 8 ext0 (At_NewPackage pkgTP) = [At_NewPackage pkgTP]
   \<and> unsupportedPanic (OtherInstr ''*ssa.Panic'') = Some (UnknownInstr ''*ssa.Panic'')
   \<and> fnBlock (Index (hd (Blocks fPanic))) ctxA = Inr (0, 0)
   \<and> Instrs (hd (Blocks fPanic)) = [IV (Alloc 1 ''int'' True)] @ OtherInstr ''*ssa.Panic'' # []
   \<and> (\<exists>s1. compileInstrs ext0 [IV (Alloc 1 ''int'' True)]
               (ctxA\<lparr>b_blk := Some (0, 0), bvals := Map.empty\<rparr>) = Inr s1)
   \<and> compileBlock ext0 (hd (Blocks fPanic)) False ctxA = Inl (UnknownInstr ''*ssa.Panic'')
   \<and> bvals ctxA (OtherIV 5 ''*ssa.Phi'') = None
   \<and> compileInstr ext0 (IV (OtherIV 5 ''*ssa.Phi'')) ctxA = Inl (UnknownInstrAndValue ''*ssa.Phi'')"
proof -
  obtain cL where dL: "declareMembers ext0 (sortedMembers pkgL) (newContext pkgL) = Inr cL"
    by (simp add: declareMembers_closed sortedMembers_pkgL)
  have cL: "cL = declGlobals ext0 [] (declFuncs ext0 [fB, fLen] (newContext pkgL))"
    using declared_context [OF dL] by (simp add: sortedMembers_pkgL fB_def fB_info_def fLen_def)
  have "\<exists>t. At_compileValue (OtherValue ''*ssa.Builtin'') t
            \<in> set (invocations 9 ext0 (At_runInits (inits cL) cL))"
    unfolding cL
    by (simp add: eval_nat_numeral declFuncs_def declGlobals_def pkg_eval_simps eval_simps
          fB_def fB_info_def fLen_def ext0_def sig0_def pkgL_def)
  then obtain tL where "At_compileValue (OtherValue ''*ssa.Builtin'') tL
            \<in> set (invocations 9 ext0 (At_runInits (inits cL) cL))" ..
  from reached_in_build [OF dL this]
  have rL: "At_compileValue (OtherValue ''*ssa.Builtin'') tL
            \<in> set (invocations 10 ext0 (At_NewPackage pkgL))" by simp
  have hL: "MFunction fLen \<in> snd ` set (Members pkgL)" "fn_typeparams (info fLen) = None"
    "hd (Blocks fLen) \<in> set (Blocks fLen)"
    "IV (Call 2 (OtherValue ''*ssa.Builtin'') [InstrVal (Alloc 1 ''[]int'' True)])
        \<in> set (Instrs (hd (Blocks fLen)))"
    "unsupportedIn ext0
        (IV (Call 2 (OtherValue ''*ssa.Builtin'') [InstrVal (Alloc 1 ''[]int'' True)]))"
    by (simp_all add: pkgL_def fLen_def funcKind_def fnUnsafeInit_def fnNormal_def)
  have hB: "unsupportedPanic (OtherInstr ''*ssa.Panic'') = Some (UnknownInstr ''*ssa.Panic'')"
    "fnBlock (Index (hd (Blocks fPanic))) ctxA = Inr (0, 0)"
    "Instrs (hd (Blocks fPanic)) = [IV (Alloc 1 ''int'' True)] @ OtherInstr ''*ssa.Panic'' # []"
    "bvals ctxA (OtherIV 5 ''*ssa.Phi'') = None"
    by (simp_all add: fPanic_def ctxA_def fnBlock_def)
  obtain s1 where s1: "compileInstrs ext0 [IV (Alloc 1 ''int'' True)]
               (ctxA\<lparr>b_blk := Some (0, 0), bvals := Map.empty\<rparr>) = Inr s1"
    by (simp add: eval_simps ctxA_def ext0_def)
  note TL = unsupported_is_fatal [where ext = ext0 and k = "''*ssa.Builtin''" and s = ctxA
      and a = 5 and instr = "OtherInstr ''*ssa.Panic''" and e = "UnknownInstr ''*ssa.Panic''"
      and block = "hd (Blocks fPanic)" and ret = "(0, 0)" and pre = "[IV (Alloc 1 ''int'' True)]"
      and post = "[]" and ?s1.0 = s1 and n = 10 and spkg = pkgL and t = tL
      and d = "At_compileValue (OtherValue ''*ssa.Builtin'') tL"
      and f = fLen and blk = "hd (Blocks fLen)"
      and ins = "IV (Call 2 (OtherValue ''*ssa.Builtin'') [InstrVal (Alloc 1 ''[]int'' True)])"]
  from TL rL have vL: "NewPackage ext0 pkgL = Inl (UnknownValue ''*ssa.Builtin'')" by blast
  have pL: "panicOf ext0 (At_compileValue (OtherValue ''*ssa.Builtin'') tL)
      = Some (UnknownValue ''*ssa.Builtin'')"
    by (simp add: compileValue.simps)
  from unsupported_is_fatal [where ext = ext0 and n = 10 and spkg = pkgL
      and d = "At_compileValue (OtherValue ''*ssa.Builtin'') tL"
      and e = "UnknownValue ''*ssa.Builtin''"] rL pL
  have nL: "NewPackage ext0 pkgL = Inl (UnknownValue ''*ssa.Builtin'')" by blast
  from TL hL have xL: "\<exists>e. NewPackage ext0 pkgL = Inl e" by blast
  from TL hB s1 have bP: "compileBlock ext0 (hd (Blocks fPanic)) False ctxA
      = Inl (UnknownInstr ''*ssa.Panic'')" by blast
  obtain cP where dP: "declareMembers ext0 (sortedMembers pkgP) (newContext pkgP) = Inr cP"
    by (simp add: declareMembers_closed sortedMembers_pkgP)
  have cP: "cP = declGlobals ext0 [] (declFuncs ext0 [fB, fPanic] (newContext pkgP))"
    using declared_context [OF dP] by (simp add: sortedMembers_pkgP fB_def fB_info_def fPanic_def)
  have "\<exists>t. At_compileInstr (OtherInstr ''*ssa.Panic'') t
            \<in> set (invocations 7 ext0 (At_runInits (inits cP) cP))"
    unfolding cP
    by (simp add: eval_nat_numeral declFuncs_def declGlobals_def pkg_eval_simps eval_simps
          fB_def fB_info_def fPanic_def ext0_def sig0_def pkgP_def)
  then obtain tP where "At_compileInstr (OtherInstr ''*ssa.Panic'') tP
            \<in> set (invocations 7 ext0 (At_runInits (inits cP) cP))" ..
  from reached_in_build [OF dP this]
  have rP: "At_compileInstr (OtherInstr ''*ssa.Panic'') tP
            \<in> set (invocations 8 ext0 (At_NewPackage pkgP))" by simp
  from unsupported_is_fatal [where ext = ext0 and k = "''*ssa.Panic''" and n = 8
      and spkg = pkgP and t = tP] rP
  have nP: "NewPackage ext0 pkgP = Inl (UnknownInstr ''*ssa.Panic'')" by blast
  obtain cQ where dQ: "declareMembers ext0 (sortedMembers pkgPhi) (newContext pkgPhi) = Inr cQ"
    by (simp add: declareMembers_closed sortedMembers_pkgPhi)
  have cQ: "cQ = declGlobals ext0 [] (declFuncs ext0 [fPhi] (newContext pkgPhi))"
    using declared_context [OF dQ] by (simp add: sortedMembers_pkgPhi fPhi_def)
  have "\<exists>t. At_compileInstrAndValue (OtherIV 2 ''*ssa.Phi'') t
            \<in> set (invocations 8 ext0 (At_runInits (inits cQ) cQ))"
    unfolding cQ
    by (simp add: eval_nat_numeral declFuncs_def declGlobals_def pkg_eval_simps eval_simps
          fPhi_def ext0_def sig0_def pkgPhi_def)
  then obtain tQ where "At_compileInstrAndValue (OtherIV 2 ''*ssa.Phi'') tQ
            \<in> set (invocations 8 ext0 (At_runInits (inits cQ) cQ))" ..
  from reached_in_build [OF dQ this]
  have rQ: "At_compileInstrAndValue (OtherIV 2 ''*ssa.Phi'') tQ
            \<in> set (invocations 9 ext0 (At_NewPackage pkgPhi))" by simp
  from unsupported_is_fatal [where ext = ext0 and k = "''*ssa.Phi''" and a = 2 and n = 9
      and spkg = pkgPhi and t = tQ] rQ
  have nQ: "NewPackage ext0 pkgPhi = Inl (UnknownInstrAndValue ''*ssa.Phi'')" by blast
  have ty: "\<exists>m \<in> set (sortedMembers pkgTP). isType m"
    by (simp add: sortedMembers_pkgTP)
  from unsupported_is_fatal [where ext = ext0 and n = 8 and spkg = pkgTP] ty
  have nT: "NewPackage ext0 pkgTP = Inl Todo"
    "invocations 8 ext0 (At_NewPackage pkgTP) = [At_NewPackage pkgTP]" by blast+
  from unsupported_is_fatal [where ext = ext0 and k = "''*ssa.Phi''" and s = ctxA and a = 5] hB(4)
  have phi: "compileInstr ext0 (IV (OtherIV 5 ''*ssa.Phi'')) ctxA
      = Inl (UnknownInstrAndValue ''*ssa.Phi'')" by blast
  have e1: "\<exists>t. At_compileValue (OtherValue ''*ssa.Builtin'') t
            \<in> set (invocations 10 ext0 (At_NewPackage pkgL))
        \<and> panicOf ext0 (At_compileValue (OtherValue ''*ssa.Builtin'') t)
            = Some (UnknownValue ''*ssa.Builtin'')"
    by (rule exI [of _ tL], rule conjI, rule rL, rule pL)
  have e2: "\<exists>t. At_compileInstr (OtherInstr ''*ssa.Panic'') t
            \<in> set (invocations 8 ext0 (At_NewPackage pkgP))" using rP ..
  have e3: "\<exists>t. At_compileInstrAndValue (OtherIV 2 ''*ssa.Phi'') t
            \<in> set (invocations 9 ext0 (At_NewPackage pkgPhi))" using rQ ..
  have e4: "\<exists>s1. compileInstrs ext0 [IV (Alloc 1 ''int'' True)]
               (ctxA\<lparr>b_blk := Some (0, 0), bvals := Map.empty\<rparr>) = Inr s1" using s1 ..
  show ?thesis
    by (intro conjI; fact)
qed

end
